theory Spec2Isabelle
  imports Complex_Main
begin

section \<open>Strings and character classes\<close>

text \<open>
  A Python \<open>str\<close> is modelled as a \<open>string\<close>; each \<open>char\<close> is read as one code point
  below 256. The character classes are the ones Python's \<open>re\<close> module and \<open>str\<close>
  methods use on such code points:
  \<^item> \<open>\d\<close>: the decimal digits (below 256 these are \<open>0\<close> to \<open>9\<close>);
  \<^item> \<open>\s\<close>, \<open>str.strip()\<close>: code points 9 to 13, 28 to 32, 133 and 160;
  \<^item> \<open>\w\<close>: the alphanumeric code points and the underscore;
  \<^item> \<open>[A-Za-z0-9]\<close>, \<open>[a-f0-9]\<close>, \<open>[A-Za-z0-9_-]\<close>: as written.
\<close>

definition is_digit :: "char \<Rightarrow> bool" where
  "is_digit c = (c \<in> set ''0123456789'')"

definition is_space :: "char \<Rightarrow> bool" where
  "is_space c = (let n = (of_char c :: nat) in
     (9 \<le> n \<and> n \<le> 13) \<or> (28 \<le> n \<and> n \<le> 32) \<or> n = 133 \<or> n = 160)"

definition is_ascii_alnum :: "char \<Rightarrow> bool" where
  "is_ascii_alnum c = (let n = (of_char c :: nat) in
     (48 \<le> n \<and> n \<le> 57) \<or> (65 \<le> n \<and> n \<le> 90) \<or> (97 \<le> n \<and> n \<le> 122))"

definition is_word :: "char \<Rightarrow> bool" where
  "is_word c = (let n = (of_char c :: nat) in
     is_ascii_alnum c \<or> n = 95 \<or> n = 170 \<or> n = 178 \<or> n = 179 \<or> n = 181 \<or> n = 185
     \<or> n = 186 \<or> (188 \<le> n \<and> n \<le> 190) \<or> (192 \<le> n \<and> n \<le> 214)
     \<or> (216 \<le> n \<and> n \<le> 246) \<or> 248 \<le> n)"

definition is_hex_lower :: "char \<Rightarrow> bool" where
  "is_hex_lower c = (c \<in> set ''abcdef0123456789'')"

definition is_key_char :: "char \<Rightarrow> bool" where
  "is_key_char c = (is_ascii_alnum c \<or> c = CHR ''_'' \<or> c = CHR ''-'')"

text \<open>\<open>s.split(sep)[0]\<close> for a one-character separator: the part before its first occurrence.\<close>

definition before_first :: "char \<Rightarrow> string \<Rightarrow> string" where
  "before_first sep s = takeWhile (\<lambda>c. c \<noteq> sep) s"

text \<open>\<open>s.split(sep)[-1]\<close> for a one-character separator: the part after its last occurrence.\<close>

definition after_last :: "char \<Rightarrow> string \<Rightarrow> string" where
  "after_last sep s = rev (takeWhile (\<lambda>c. c \<noteq> sep) (rev s))"

text \<open>\<open>os.path.basename\<close> (POSIX): everything after the last slash.\<close>

definition basename :: "string \<Rightarrow> string" where
  "basename p = after_last CHR ''/'' p"

text \<open>
  \<open>re.sub(r"\.[^.]+$", "", name)\<close>. The class \<open>[^.]\<close> also matches a newline, so the
  pattern can only match from the last dot of the name to its end, and it does so exactly
  when at least one character follows that dot.
\<close>

definition strip_ext :: "string \<Rightarrow> string" where
  "strip_ext name =
     (let ext = after_last CHR ''.'' name
      in if CHR ''.'' \<in> set name \<and> ext \<noteq> [] then take (length name - length ext - 1) name
         else name)"

text \<open>\<open>str.strip()\<close> and \<open>str.strip("-")\<close>.\<close>

definition strip_by :: "(char \<Rightarrow> bool) \<Rightarrow> string \<Rightarrow> string" where
  "strip_by p s = rev (dropWhile p (rev (dropWhile p s)))"

definition strip :: "string \<Rightarrow> string" where
  "strip s = strip_by is_space s"

section \<open>Token Extractor\<close>

text \<open>
  \<open>re.match\<close> of \<open>(\d+)_([A-Za-z0-9]+)\<close> at the head of a string. \<open>\d+\<close> is greedy and a
  shorter digit run would be followed by a digit, not by the underscore, so only the
  maximal run can match; the same holds for the alphanumeric group.
\<close>

definition match_combined :: "string \<Rightarrow> (string \<times> string) option" where
  "match_combined s =
     (let ds = takeWhile is_digit s; r = dropWhile is_digit s
      in case r of
           [] \<Rightarrow> None
         | u # r' \<Rightarrow>
             if ds \<noteq> [] \<and> u = CHR ''_'' \<and> takeWhile is_ascii_alnum r' \<noteq> []
             then Some (ds, takeWhile is_ascii_alnum r') else None)"

text \<open>\<open>re.search\<close>: the match at the leftmost position that has one.\<close>

fun search_combined :: "string \<Rightarrow> (string \<times> string) option" where
  "search_combined [] = None"
| "search_combined (c # cs) =
     (case match_combined (c # cs) of
        Some g \<Rightarrow> Some g
      | None \<Rightarrow> search_combined cs)"

text \<open>\<open>re.search(r"\d+", name)\<close>: the first maximal run of digits.\<close>

definition search_digits :: "string \<Rightarrow> string option" where
  "search_digits s =
     (let r = dropWhile (\<lambda>c. \<not> is_digit c) s
      in if r = [] then None else Some (takeWhile is_digit r))"

definition extract_filename_tokens :: "string \<Rightarrow> string list" where
  "extract_filename_tokens filename =
     (if filename = [] then []
      else
        let name = strip_ext (basename (before_first CHR ''?'' filename))
        in case search_combined name of
             Some (timestamp, suffix) \<Rightarrow> [timestamp @ ''_'' @ suffix, timestamp, suffix]
           | None \<Rightarrow>
               (case search_digits name of
                  Some timestamp \<Rightarrow> [timestamp]
                | None \<Rightarrow>
                    if name \<noteq> [] \<and> list_all is_ascii_alnum name then [name] else []))"

section \<open>Query Builder\<close>

text \<open>
  \<open>"_-_" in name\<close> and \<open>name.split("_-_", 1)[1]\<close>: the text after the first (leftmost)
  occurrence of the separator, if there is one.
\<close>

fun after_first_sep :: "string \<Rightarrow> string \<Rightarrow> string option" where
  "after_first_sep sep [] = (if sep = [] then Some [] else None)"
| "after_first_sep sep (c # cs) =
     (if take (length sep) (c # cs) = sep then Some (drop (length sep) (c # cs))
      else after_first_sep sep cs)"

text \<open>\<open>name.replace("_", " ").replace("-", " ")\<close>.\<close>

definition replace_separators :: "string \<Rightarrow> string" where
  "replace_separators name =
     map (\<lambda>c. if c = CHR ''_'' \<or> c = CHR ''-'' then CHR '' '' else c) name"

text \<open>
  \<open>re.search(r"\s(\d{8,})\s", name)\<close>, as the start of the whole match. At a given
  position the pattern matches exactly when a whitespace character is followed by a
  maximal digit run of length at least 8 and then by a whitespace character (giving
  digits back would leave a digit where \<open>\s\<close> is required).
\<close>

definition long_run_then_space :: "string \<Rightarrow> bool" where
  "long_run_then_space s =
     (8 \<le> length (takeWhile is_digit s) \<and>
      (case dropWhile is_digit s of [] \<Rightarrow> False | c # _ \<Rightarrow> is_space c))"

fun search_spaced_run :: "string \<Rightarrow> nat option" where
  "search_spaced_run [] = None"
| "search_spaced_run (c # cs) =
     (if is_space c \<and> long_run_then_space cs then Some 0
      else map_option Suc (search_spaced_run cs))"

text \<open>
  \<open>re.search(r"\b(\d{8,})", name)\<close>, as the start of the match. The first argument
  tells whether the preceding character is a word character (\<open>False\<close> at the start of
  the string): \<open>\b\<close> before a digit holds exactly when it is not.
\<close>

fun search_boundary_run :: "bool \<Rightarrow> string \<Rightarrow> nat option" where
  "search_boundary_run prev [] = None"
| "search_boundary_run prev (c # cs) =
     (if \<not> prev \<and> 8 \<le> length (takeWhile is_digit (c # cs)) then Some 0
      else map_option Suc (search_boundary_run (is_word c) cs))"

definition search_timestamp :: "string \<Rightarrow> nat option" where
  "search_timestamp name =
     (case search_spaced_run name of
        Some i \<Rightarrow> Some i
      | None \<Rightarrow> search_boundary_run False name)"

text \<open>\<open>re.sub\<close> of a pattern \<open>[class]+\<close> by one character: every maximal run is replaced.\<close>

function collapse_runs :: "(char \<Rightarrow> bool) \<Rightarrow> char \<Rightarrow> string \<Rightarrow> string" where
  "collapse_runs p r [] = []"
| "collapse_runs p r (c # cs) =
     (if p c then r # collapse_runs p r (dropWhile p cs) else c # collapse_runs p r cs)"
  by pat_completeness auto
termination
  by (relation "measure (\<lambda>(p, r, s). length s)")
     (auto simp: length_dropWhile_le less_Suc_eq_le)

definition cleanup_whitespace :: "string \<Rightarrow> string" where
  "cleanup_whitespace name = strip (collapse_runs is_space CHR '' '' name)"

definition build_search_query :: "string \<Rightarrow> string" where
  "build_search_query v =
     (if v = [] then []
      else
        let name = strip_ext (basename v);
            name = (case after_first_sep ''_-_'' name of Some rest \<Rightarrow> rest | None \<Rightarrow> name);
            name = replace_separators name;
            name = (case search_timestamp name of Some i \<Rightarrow> take i name | None \<Rightarrow> name)
        in cleanup_whitespace name)"


section \<open>Values, errors and the runtime\<close>

text \<open>
  A Python \<open>float\<close>: a finite value, idealised as a real number (rounding is not
  modelled), or one of the three special values that \<open>float("nan")\<close>, \<open>float("inf")\<close>
  and the JSON literals \<open>NaN\<close>, \<open>Infinity\<close> produce.
\<close>

datatype pyfloat = Fin real | NaN | PosInf | NegInf

text \<open>
  A decoded JSON document, as \<open>json.loads\<close> and \<open>resp.json()\<close> return it. A \<open>dict\<close> is
  an association list in insertion order, read with \<open>map_of\<close>; its keys are distinct.
\<close>

datatype json =
    JNull
  | JBool bool
  | JInt int
  | JFloat pyfloat
  | JStr string
  | JList "json list"
  | JDict "(string \<times> json) list"

text \<open>
  The exceptions the pipeline can raise: \<open>TypeError\<close> and \<open>AttributeError\<close> on a value of
  the wrong type, \<open>OverflowError\<close> from \<open>float\<close> on an \<open>int\<close> beyond the range of a
  \<open>float\<close>, and the exceptions other than a JSON decode error that reading and decoding
  a document can raise (\<open>ValueError\<close> on an integer literal beyond the digit limit,
  \<open>RecursionError\<close> on nesting that is too deep, \<open>UnicodeDecodeError\<close> on input that is
  not text).
\<close>

datatype pyexc =
    TypeError
  | AttributeError
  | OverflowError
  | ValueError
  | RecursionError
  | UnicodeDecodeError

text \<open>
  The result of a step of the pipeline: a value, a call of \<open>fail(message)\<close> (which prints
  \<open>{"error": message}\<close> and raises \<open>SystemExit(1)\<close>), or an exception.
\<close>

datatype 'a res = Ok 'a | Fail string | Raise pyexc

text \<open>
  What the pipeline takes from the interpreter and the standard library:
  \<^item> \<open>str_of v\<close>: \<open>str(v)\<close> of a value that is not a \<open>str\<close>, as an f-string formats it;
  \<^item> \<open>float_of s\<close>: \<open>float(s)\<close> of a \<open>str\<close>, \<open>None\<close> where it raises \<open>ValueError\<close>;
  \<^item> \<open>ratio a b\<close>: \<open>SequenceMatcher(None, a.lower(), b.lower()).ratio()\<close>;
  \<^item> \<open>exc_text e\<close>: \<open>str(e)\<close> of an exception;
  \<^item> \<open>encodable v\<close>: whether \<open>json.dumps(v, ensure_ascii=False).encode("utf-8")\<close> succeeds.
    It raises a \<open>UnicodeEncodeError\<close> on a value that holds a string with a lone
    surrogate, which \<open>json.loads\<close> accepts; the characters of this development do not
    tell such strings apart, so the test is left to the runtime.
\<close>

record runtime =
  str_of :: "json \<Rightarrow> string"
  float_of :: "string \<Rightarrow> pyfloat option"
  ratio :: "string \<Rightarrow> string \<Rightarrow> real"
  exc_text :: "pyexc \<Rightarrow> string"
  encodable :: "json \<Rightarrow> bool"

definition py_str :: "runtime \<Rightarrow> json \<Rightarrow> string" where
  "py_str rt v = (case v of JStr s \<Rightarrow> s | _ \<Rightarrow> str_of rt v)"

text \<open>Truth value testing, \<open>a or b\<close>, \<open>d.get(k)\<close> and \<open>d.get(k, default)\<close>.\<close>

fun truthy :: "json \<Rightarrow> bool" where
  "truthy JNull = False"
| "truthy (JBool b) = b"
| "truthy (JInt i) = (i \<noteq> 0)"
| "truthy (JFloat f) = (f \<noteq> Fin 0)"
| "truthy (JStr s) = (s \<noteq> [])"
| "truthy (JList xs) = (xs \<noteq> [])"
| "truthy (JDict kvs) = (kvs \<noteq> [])"

definition py_or :: "json \<Rightarrow> json \<Rightarrow> json" where
  "py_or a b = (if truthy a then a else b)"

definition get_default :: "(string \<times> json) list \<Rightarrow> string \<Rightarrow> json \<Rightarrow> json" where
  "get_default d k dflt = (case map_of d k of Some v \<Rightarrow> v | None \<Rightarrow> dflt)"

definition get :: "(string \<times> json) list \<Rightarrow> string \<Rightarrow> json" where
  "get d k = get_default d k JNull"

fun dig :: "json \<Rightarrow> string list \<Rightarrow> json" where
  "dig current [] = current"
| "dig current (key # keys) =
     (case current of
        JDict d \<Rightarrow> (case map_of d key of Some v \<Rightarrow> dig v keys | None \<Rightarrow> JNull)
      | _ \<Rightarrow> JNull)"

text \<open>\<open>sub in s\<close> on strings.\<close>

fun contains :: "string \<Rightarrow> string \<Rightarrow> bool" where
  "contains [] sub = (sub = [])"
| "contains (c # cs) sub = (take (length sub) (c # cs) = sub \<or> contains cs sub)"

text \<open>
  \<open>"error" in data\<close>: a key of a \<open>dict\<close>, an element of a \<open>list\<close>, a substring of a
  \<open>str\<close>; a \<open>TypeError\<close> on anything else.
\<close>

definition error_in :: "json \<Rightarrow> pyexc + bool" where
  "error_in data =
     (case data of
        JDict d \<Rightarrow> Inr (map_of d ''error'' \<noteq> None)
      | JList xs \<Rightarrow> Inr (JStr ''error'' \<in> set xs)
      | JStr s \<Rightarrow> Inr (contains s ''error'')
      | _ \<Rightarrow> Inl TypeError)"

fun iter_strings :: "json \<Rightarrow> string list" where
  "iter_strings (JStr s) = [s]"
| "iter_strings (JDict d) = concat (map (\<lambda>(k, v). iter_strings v) d)"
| "iter_strings (JList xs) = concat (map iter_strings xs)"
| "iter_strings _ = []"

definition video_contains_token :: "json \<Rightarrow> string list \<Rightarrow> bool" where
  "video_contains_token video tokens =
     (tokens \<noteq> [] \<and>
      list_ex (\<lambda>value. list_ex (\<lambda>token. contains value token) tokens) (iter_strings video))"

definition get_video_id :: "(string \<times> json) list \<Rightarrow> json" where
  "get_video_id item = py_or (py_or (get item ''_id'') (get item ''id'')) (get item ''videoId'')"

section \<open>Durations\<close>

text \<open>
  \<open>float(value)\<close> of an \<open>int\<close> raises an \<open>OverflowError\<close> when the nearest \<open>float\<close> would
  be beyond the largest finite one, which is from \<open>2 ^ 1024 - 2 ^ 970\<close> on in
  magnitude (the number below, written out); under it the conversion is taken as exact.
\<close>

definition float_limit :: int where
  "float_limit =
     179769313486231580793728971405303415079934132710037826936173778980444968292764750946649017977587207096330286416692887910946555547851940402630657488671505820681908902000708383676273854845817711531764475730270069855571366959622842914819860834936475292719074168444365510704342711559699508093042880177904174497792"

definition float_overflow :: "int \<Rightarrow> bool" where
  "float_overflow i = (float_limit \<le> \<bar>i\<bar>)"

text \<open>
  \<open>_coerce_duration\<close>. A \<open>bool\<close> is an \<open>int\<close> in Python. The \<open>ValueError\<close> of \<open>float\<close> on a
  \<open>str\<close> is caught, the \<open>OverflowError\<close> of \<open>float\<close> on an \<open>int\<close> is not.
\<close>

definition coerce_duration :: "runtime \<Rightarrow> json \<Rightarrow> pyexc + pyfloat option" where
  "coerce_duration rt v =
     (case v of
        JBool b \<Rightarrow> Inr (Some (Fin (if b then 1 else 0)))
      | JInt i \<Rightarrow> if float_overflow i then Inl OverflowError else Inr (Some (Fin (of_int i)))
      | JFloat f \<Rightarrow> Inr (Some f)
      | JStr s \<Rightarrow> Inr (float_of rt s)
      | _ \<Rightarrow> Inr None)"

fun first_duration :: "runtime \<Rightarrow> (string \<times> json) list \<Rightarrow> string list \<Rightarrow> pyexc + pyfloat option" where
  "first_duration rt video [] = Inr None"
| "first_duration rt video (key # keys) =
     (case coerce_duration rt (get video key) of
        Inl e \<Rightarrow> Inl e
      | Inr (Some d) \<Rightarrow> Inr (Some d)
      | Inr None \<Rightarrow> first_duration rt video keys)"

definition extract_candidate_duration :: "runtime \<Rightarrow> (string \<times> json) list \<Rightarrow> pyexc + pyfloat option" where
  "extract_candidate_duration rt video =
     first_duration rt video
       [''duration'', ''durationSeconds'', ''length'', ''runtime'', ''runTime'', ''time'']"

definition DURATION_TOLERANCE_SECONDS :: real where
  "DURATION_TOLERANCE_SECONDS = 10"

text \<open>
  \<open>abs(candidate_duration - local) <= DURATION_TOLERANCE_SECONDS\<close>: false as soon as one
  of the two is not finite (the difference is then infinite or NaN).
\<close>

fun within_tolerance :: "pyfloat \<Rightarrow> pyfloat \<Rightarrow> bool" where
  "within_tolerance (Fin a) (Fin b) = (\<bar>a - b\<bar> \<le> DURATION_TOLERANCE_SECONDS)"
| "within_tolerance _ _ = False"

definition duration_matches :: "pyfloat option \<Rightarrow> pyfloat list \<Rightarrow> bool" where
  "duration_matches candidate_duration local_durations =
     (case candidate_duration of
        None \<Rightarrow> False
      | Some c \<Rightarrow> local_durations \<noteq> [] \<and> list_ex (within_tolerance c) local_durations)"

text \<open>The inner function \<open>_collect\<close>, appending to the list \<open>durations\<close>.\<close>

definition collect :: "runtime \<Rightarrow> pyfloat list \<Rightarrow> json \<Rightarrow> pyexc + pyfloat list" where
  "collect rt durations v =
     (case coerce_duration rt v of
        Inl e \<Rightarrow> Inl e
      | Inr (Some d) \<Rightarrow> Inr (durations @ [d])
      | Inr None \<Rightarrow> Inr durations)"

text \<open>The loop over the items of \<open>fingerprints\<close>; items that are not a \<open>dict\<close> are skipped.\<close>

fun collect_fingerprints :: "runtime \<Rightarrow> pyfloat list \<Rightarrow> json list \<Rightarrow> pyexc + pyfloat list" where
  "collect_fingerprints rt durations [] = Inr durations"
| "collect_fingerprints rt durations (fingerprint # rest) =
     (case fingerprint of
        JDict f \<Rightarrow>
          (case collect rt durations (get f ''duration'') of
             Inl e \<Rightarrow> Inl e
           | Inr durations \<Rightarrow> collect_fingerprints rt durations rest)
      | _ \<Rightarrow> collect_fingerprints rt durations rest)"

text \<open>The end of \<open>_extract_local_durations\<close>: the loop runs when \<open>fingerprints\<close> is a \<open>list\<close>.\<close>

definition collect_list :: "runtime \<Rightarrow> pyfloat list \<Rightarrow> json \<Rightarrow> pyexc + pyfloat list" where
  "collect_list rt durations fingerprints =
     (case fingerprints of
        JList fs \<Rightarrow> collect_fingerprints rt durations fs
      | _ \<Rightarrow> Inr durations)"

definition extract_local_durations :: "runtime \<Rightarrow> json \<Rightarrow> pyexc + pyfloat list" where
  "extract_local_durations rt params =
     (case params of
        JDict p \<Rightarrow>
          (case collect rt [] (get p ''duration'') of
             Inl e \<Rightarrow> Inl e
           | Inr durations \<Rightarrow>
               (case get p ''scene'' of
                  JDict scene \<Rightarrow>
                    (case collect rt durations (get scene ''duration'') of
                       Inl e \<Rightarrow> Inl e
                     | Inr durations \<Rightarrow> collect_list rt durations (get scene ''fingerprints''))
                | _ \<Rightarrow> collect_list rt durations (get p ''fingerprints'')))
      | _ \<Rightarrow> Inr [])"

section \<open>Scene Builder and selection options\<close>

type_synonym dict = "(string \<times> json) list"

definition lift :: "pyexc + 'a \<Rightarrow> 'a res" where
  "lift r = (case r of Inl e \<Rightarrow> Raise e | Inr v \<Rightarrow> Ok v)"

text \<open>
  \<open>str.lower()\<close> on the characters that are left when \<open>_slugify\<close> calls it: ASCII letters,
  digits and the hyphen.
\<close>

definition lower_ascii :: "char \<Rightarrow> char" where
  "lower_ascii c =
     (let n = (of_char c :: nat) in if 65 \<le> n \<and> n \<le> 90 then char_of (n + 32) else c)"

definition slugify_str :: "string \<Rightarrow> string" where
  "slugify_str s =
     map lower_ascii
       (strip_by (\<lambda>c. c = CHR ''-'') (collapse_runs (\<lambda>c. \<not> is_ascii_alnum c) CHR ''-'' s))"

text \<open>\<open>_slugify(value)\<close>: \<open>re.sub\<close> raises a \<open>TypeError\<close> when \<open>value or ""\<close> is not a \<open>str\<close>.\<close>

definition slugify :: "json \<Rightarrow> pyexc + string" where
  "slugify v =
     (case py_or v (JStr []) of
        JStr s \<Rightarrow> Inr (slugify_str s)
      | _ \<Rightarrow> Inl TypeError)"

definition is_str :: "json \<Rightarrow> bool" where
  "is_str v = (case v of JStr _ \<Rightarrow> True | _ \<Rightarrow> False)"

text \<open>
  \<open>_pick_image\<close>. The loop iterates over \<open>video.get("thumbnails", []) or []\<close>: the items of
  a \<open>list\<close>, the characters of a \<open>str\<close>, the keys of a \<open>dict\<close>; any other value is not
  iterable.
\<close>

definition pick_image :: "dict \<Rightarrow> pyexc + json" where
  "pick_image video =
     (let thumb = get video ''thumbnailUrl''
      in if truthy thumb then Inr thumb
         else
           (case py_or (get_default video ''thumbnails'' (JList [])) (JList []) of
              JList xs \<Rightarrow> Inr (case find is_str xs of Some item \<Rightarrow> item | None \<Rightarrow> JStr [])
            | JStr s \<Rightarrow> Inr (case s of c # _ \<Rightarrow> JStr [c] | [] \<Rightarrow> JStr [])
            | JDict d \<Rightarrow> Inr (case d of (k, _) # _ \<Rightarrow> JStr k | [] \<Rightarrow> JStr [])
            | _ \<Rightarrow> Inl TypeError))"

definition video_url :: string where
  "video_url = ''https://pmvhaven.com/video/''"

text \<open>The loop of \<open>_build_selection_options\<close>; items that are not a \<open>dict\<close> are skipped.\<close>

fun selection_options :: "runtime \<Rightarrow> json list \<Rightarrow> pyexc + json list" where
  "selection_options rt [] = Inr []"
| "selection_options rt (item # rest) =
     (case item of
        JDict d \<Rightarrow>
          (let video_id = get_video_id d;
               title = py_or (get d ''title'') (JStr [])
           in case slugify title of
                Inl e \<Rightarrow> Inl e
              | Inr slug \<Rightarrow>
                  (let url = (if slug \<noteq> [] \<and> truthy video_id
                              then video_url @ slug @ ''_'' @ py_str rt video_id else [])
                   in case pick_image d of
                        Inl e \<Rightarrow> Inl e
                      | Inr thumb \<Rightarrow>
                          (case selection_options rt rest of
                             Inl e \<Rightarrow> Inl e
                           | Inr options \<Rightarrow>
                               Inr (JDict [(''title'', title),
                                           (''id'', py_or video_id (JStr [])),
                                           (''url'', JStr url),
                                           (''thumbnail'', thumb)] # options))))
      | _ \<Rightarrow> selection_options rt rest)"

definition build_selection_options :: "runtime \<Rightarrow> json list \<Rightarrow> pyexc + json" where
  "build_selection_options rt candidates =
     (case selection_options rt candidates of
        Inl e \<Rightarrow> Inl e
      | Inr options \<Rightarrow> Inr (JDict [(''results'', JList options)]))"

text \<open>\<open>value.split(",")\<close>.\<close>

fun split_on :: "char \<Rightarrow> string \<Rightarrow> string list" where
  "split_on sep [] = [[]]"
| "split_on sep (c # cs) =
     (if c = sep then [] # split_on sep cs
      else (case split_on sep cs of p # ps \<Rightarrow> (c # p) # ps | [] \<Rightarrow> [[c]]))"

definition normalize_names :: "json \<Rightarrow> json list" where
  "normalize_names v =
     (let names = (case v of
                     JList xs \<Rightarrow> xs
                   | JStr s \<Rightarrow> map (\<lambda>item. JStr (strip item)) (split_on CHR '','' s)
                   | _ \<Rightarrow> [])
      in filter (\<lambda>name. case name of JStr s \<Rightarrow> strip s \<noteq> [] | _ \<Rightarrow> False) names)"

fun first_studio_url :: "dict \<Rightarrow> string list \<Rightarrow> json" where
  "first_studio_url video [] = JNull"
| "first_studio_url video (key # keys) =
     (case get video key of
        JStr url \<Rightarrow> if strip url \<noteq> [] then JStr url else first_studio_url video keys
      | _ \<Rightarrow> first_studio_url video keys)"

definition extract_studio_url :: "dict \<Rightarrow> json" where
  "extract_studio_url video =
     first_studio_url video [''creatorUrl'', ''creatorURL'', ''creatorPage'', ''creatorLink'']"

definition named :: "json \<Rightarrow> json" where
  "named name = JDict [(''name'', name)]"

text \<open>
  The studio name of \<open>_build_scene\<close>: the first item of the list \<open>creator\<close> (nothing when
  the list is empty), or \<open>creator\<close> itself when it is not a list.
\<close>

definition studio_name_of :: "dict \<Rightarrow> json" where
  "studio_name_of video =
     (let creator = py_or (get video ''creator'') (JList [])
      in case creator of
           JList [] \<Rightarrow> JNull
         | JList (first # _) \<Rightarrow> first
         | _ \<Rightarrow> creator)"

text \<open>The entries that \<open>_build_scene\<close> adds after the dictionary literal.\<close>

definition optional_fields :: "dict \<Rightarrow> dict" where
  "optional_fields video =
     (let description = get video ''description'';
          studio_name = studio_name_of video;
          studio_url = extract_studio_url video;
          studio = (if truthy studio_name then [(''name'', studio_name)] else [])
                   @ (if truthy studio_url then [(''url'', studio_url)] else [])
      in (if truthy description then [(''details'', description)] else [])
         @ (if truthy studio_name \<or> truthy studio_url then [(''studio'', JDict studio)] else []))"

text \<open>
  \<open>_build_scene\<close>. The dictionary is built in the order of the source; \<open>_slugify\<close>,
  \<open>_pick_image\<close> and the \<open>split\<close> of the date raise on values of the wrong type.
\<close>

definition build_scene :: "runtime \<Rightarrow> dict \<Rightarrow> pyexc + json" where
  "build_scene rt video =
     (let title = py_or (get video ''title'') (JStr []);
          video_id = py_or (get video ''_id'') (JStr [])
      in case slugify title of
           Inl e \<Rightarrow> Inl e
         | Inr slug \<Rightarrow>
             (let url = (if slug \<noteq> [] \<and> truthy video_id
                         then video_url @ slug @ ''_'' @ py_str rt video_id
                         else video_url @ py_str rt video_id);
                  tags = normalize_names (py_or (get video ''tags'') (JList []));
                  performers = normalize_names (py_or (get video ''starsTags'') (JList []))
              in case pick_image video of
                   Inl e \<Rightarrow> Inl e
                 | Inr img \<Rightarrow>
                     (case py_or (py_or (get video ''uploadDate'') (get video ''isoDate''))
                             (JStr []) of
                        JStr date \<Rightarrow>
                          Inr (JDict ([(''title'', title),
                                       (''url'', JStr url),
                                       (''image'', img),
                                       (''date'', JStr (before_first CHR ''T'' date)),
                                       (''performers'', JList (map named performers)),
                                       (''tags'', JList (map named tags))]
                                      @ optional_fields video))
                      | _ \<Rightarrow> Inl AttributeError)))"

section \<open>Scoring\<close>

text \<open>
  \<open>_calculate_score\<close>. \<open>video_title.lower()\<close> raises an \<open>AttributeError\<close> when the title is
  a true value that is not a \<open>str\<close>; the duration is extracted after the title has been
  compared, whether or not local durations are known.
\<close>

definition calculate_score :: "runtime \<Rightarrow> dict \<Rightarrow> string \<Rightarrow> pyfloat list \<Rightarrow> pyexc + real" where
  "calculate_score rt video query_title local_durations =
     (let score = 0;
          video_title = get_default video ''title'' (JStr [])
      in case (if query_title \<noteq> [] \<and> truthy video_title
               then (case video_title of
                       JStr t \<Rightarrow> Inr (score + ratio rt query_title t * 100)
                     | _ \<Rightarrow> Inl AttributeError)
               else Inr score) of
           Inl e \<Rightarrow> Inl e
         | Inr score \<Rightarrow>
             (case extract_candidate_duration rt video of
                Inl e \<Rightarrow> Inl e
              | Inr duration \<Rightarrow>
                  Inr (if local_durations \<noteq> [] \<and> duration_matches duration local_durations
                       then score + 50 else score)))"

section \<open>Remote Catalog Client\<close>

text \<open>
  A request is a \<open>GET\<close> of a URL with optional query parameters. The remote service is a
  function from the number of requests made so far and the request to what
  \<open>scraper.get\<close> and \<open>resp.json()\<close> produce: an exception of the transport (with its
  text), a body that is not JSON (with the HTTP status), an exception of \<open>resp.json()\<close>
  that is not a JSON decode error, or a decoded JSON body. The state threaded through
  the pipeline is the list of requests made so far.
\<close>

datatype request = Get string "dict option"

datatype reply = TransportError string | NonJson int | DecodeRaises pyexc | Body json

type_synonym net = "nat \<Rightarrow> request \<Rightarrow> reply"

type_synonym trace = "request list"

definition API_SEARCH :: string where
  "API_SEARCH = ''https://pmvhaven.com/api/videos/search''"

definition watch_url :: "runtime \<Rightarrow> json \<Rightarrow> string" where
  "watch_url rt video_id = ''https://pmvhaven.com/api/videos/'' @ py_str rt video_id @ ''/watch-page''"

text \<open>
  \<open>_get_json\<close> with \<open>_json_from_response\<close>, which catches the JSON decode error only.
\<close>

definition get_json :: "net \<Rightarrow> trace \<Rightarrow> string \<Rightarrow> string \<Rightarrow> dict option \<Rightarrow> json res \<times> trace" where
  "get_json net t url context params =
     (let req = Get url params
      in (case net (length t) req of
            TransportError e \<Rightarrow> Fail (context @ '': request failed: '' @ e)
          | NonJson status \<Rightarrow>
              Ok (JDict [(''error'', JStr (context @ '': non-JSON response'')),
                         (''status'', JInt status)])
          | DecodeRaises exc \<Rightarrow> Raise exc
          | Body data \<Rightarrow> Ok data,
          t @ [req]))"

definition get_watch_page :: "runtime \<Rightarrow> net \<Rightarrow> trace \<Rightarrow> json \<Rightarrow> json res \<times> trace" where
  "get_watch_page rt net t video_id = get_json net t (watch_url rt video_id) ''get_watch_page'' None"

definition search_request :: "string \<Rightarrow> request" where
  "search_request query =
     Get API_SEARCH (Some [(''limit'', JInt 32), (''page'', JInt 1), (''q'', JStr query)])"

definition search_videos :: "net \<Rightarrow> trace \<Rightarrow> string \<Rightarrow> json res \<times> trace" where
  "search_videos net t query =
     get_json net t API_SEARCH ''search_videos''
       (Some [(''limit'', JInt 32), (''page'', JInt 1), (''q'', JStr query)])"

text \<open>
  \<open>_get_video_details\<close> returns from two places: the response itself when \<open>"error" in data\<close>
  holds (\<open>ErrorData\<close>; the same test holds again in the caller), or the record under
  \<open>data.video\<close>, which is a \<open>dict\<close> (\<open>Video\<close>).
\<close>

datatype details = ErrorData json | Video dict

definition get_video_details :: "runtime \<Rightarrow> net \<Rightarrow> trace \<Rightarrow> json \<Rightarrow> details res \<times> trace" where
  "get_video_details rt net t video_id =
     (case get_watch_page rt net t video_id of
        (Ok data, t') \<Rightarrow>
          (case error_in data of
             Inl e \<Rightarrow> (Raise e, t')
           | Inr True \<Rightarrow> (Ok (ErrorData data), t')
           | Inr False \<Rightarrow>
               (case dig data [''data'', ''video''] of
                  JDict video \<Rightarrow> (Ok (Video video), t')
                | _ \<Rightarrow>
                    (Fail (''Video data not found in watch-page response: '' @ py_str rt data), t')))
      | (Fail m, t') \<Rightarrow> (Fail m, t')
      | (Raise e, t') \<Rightarrow> (Raise e, t'))"

definition get_video_by_id :: "runtime \<Rightarrow> net \<Rightarrow> trace \<Rightarrow> json \<Rightarrow> json res \<times> trace" where
  "get_video_by_id rt net t video_id =
     (case get_video_details rt net t video_id of
        (Ok (ErrorData data), t') \<Rightarrow> (Ok data, t')
      | (Ok (Video video), t') \<Rightarrow>
          (if map_of video ''error'' \<noteq> None then (Ok (JDict video), t')
           else (lift (build_scene rt video), t'))
      | (Fail m, t') \<Rightarrow> (Fail m, t')
      | (Raise e, t') \<Rightarrow> (Raise e, t'))"

text \<open>\<open>_extract_video_candidates\<close> on a \<open>dict\<close>.\<close>

fun first_list :: "dict \<Rightarrow> string list \<Rightarrow> json list option" where
  "first_list d [] = None"
| "first_list d (key # keys) =
     (case get d key of JList items \<Rightarrow> Some items | _ \<Rightarrow> first_list d keys)"

definition extract_video_candidates :: "dict \<Rightarrow> json list" where
  "extract_video_candidates data =
     (case first_list data [''videos'', ''results'', ''data''] of
        Some items \<Rightarrow> items
      | None \<Rightarrow>
          (case get data ''data'' of
             JDict nested \<Rightarrow>
               (if nested \<noteq> []
                then (case first_list nested [''videos'', ''results''] of
                        Some items \<Rightarrow> items
                      | None \<Rightarrow> [])
                else [])
           | _ \<Rightarrow> []))"

section \<open>Candidate Filter and Scorer\<close>

text \<open>
  \<open>_fetch_candidate_details\<close>: \<open>None\<close> for a candidate without an id or whose details
  carry an \<open>error\<close>; \<open>item.get\<close> raises an \<open>AttributeError\<close> on a candidate that is not a
  \<open>dict\<close>.
\<close>

definition fetch_candidate_details :: "runtime \<Rightarrow> net \<Rightarrow> trace \<Rightarrow> json \<Rightarrow> dict option res \<times> trace" where
  "fetch_candidate_details rt net t candidate =
     (case candidate of
        JDict c \<Rightarrow>
          (let video_id = get_video_id c
           in if \<not> truthy video_id then (Ok None, t)
              else
                (case get_video_details rt net t video_id of
                   (Ok (ErrorData data), t') \<Rightarrow> (Ok None, t')
                 | (Ok (Video video), t') \<Rightarrow>
                     (if map_of video ''error'' \<noteq> None then (Ok None, t')
                      else (Ok (Some video), t'))
                 | (Fail m, t') \<Rightarrow> (Fail m, t')
                 | (Raise e, t') \<Rightarrow> (Raise e, t')))
      | _ \<Rightarrow> (Raise AttributeError, t))"

text \<open>
  The sequential fetching loop. \<open>except Exception\<close> does not catch the \<open>SystemExit\<close> of
  \<open>fail\<close>; its handler formats \<open>_get_video_id(c)\<close> into the log line, which raises again
  when the candidate is not a \<open>dict\<close>. Empty details are not kept (\<open>if details\<close>).
\<close>

fun fetch_loop :: "runtime \<Rightarrow> net \<Rightarrow> trace \<Rightarrow> json list \<Rightarrow> dict list \<Rightarrow> dict list res \<times> trace" where
  "fetch_loop rt net t [] results_with_details = (Ok results_with_details, t)"
| "fetch_loop rt net t (c # cs) results_with_details =
     (case fetch_candidate_details rt net t c of
        (Ok (Some d), t') \<Rightarrow>
          fetch_loop rt net t' cs (if d \<noteq> [] then results_with_details @ [d] else results_with_details)
      | (Ok None, t') \<Rightarrow> fetch_loop rt net t' cs results_with_details
      | (Fail m, t') \<Rightarrow> (Fail m, t')
      | (Raise e, t') \<Rightarrow>
          (case c of
             JDict _ \<Rightarrow> fetch_loop rt net t' cs results_with_details
           | _ \<Rightarrow> (Raise AttributeError, t')))"

text \<open>The pre-filter and the cap on the candidates whose details are fetched.\<close>

definition candidates_to_process :: "json list \<Rightarrow> string list \<Rightarrow> json list" where
  "candidates_to_process candidates tokens =
     (let filtered_candidates =
            (if length candidates > 10 \<and> tokens \<noteq> []
             then (let filtered = filter (\<lambda>c. video_contains_token c tokens) candidates
                   in if filtered \<noteq> [] then filtered else candidates)
             else candidates)
      in take 5 filtered_candidates)"

text \<open>\<open>" ".join(tokens)\<close>.\<close>

fun join_spaces :: "string list \<Rightarrow> string" where
  "join_spaces [] = []"
| "join_spaces [x] = x"
| "join_spaces (x # y # ys) = x @ '' '' @ join_spaces (y # ys)"

text \<open>The detail fetch with the abort when no details were found.\<close>

definition fetch_details :: "runtime \<Rightarrow> net \<Rightarrow> trace \<Rightarrow> json list \<Rightarrow> dict list res \<times> trace" where
  "fetch_details rt net t cs =
     (case fetch_loop rt net t cs [] of
        (Ok results_with_details, t') \<Rightarrow>
          (if results_with_details = []
           then (Fail ''No valid video details found from search results'', t')
           else (Ok results_with_details, t'))
      | (Fail m, t') \<Rightarrow> (Fail m, t')
      | (Raise e, t') \<Rightarrow> (Raise e, t'))"

fun score_candidates :: "runtime \<Rightarrow> string \<Rightarrow> pyfloat list \<Rightarrow> dict list \<Rightarrow> pyexc + (real \<times> dict) list" where
  "score_candidates rt query_title local_durations [] = Inr []"
| "score_candidates rt query_title local_durations (video # rest) =
     (case calculate_score rt video query_title local_durations of
        Inl e \<Rightarrow> Inl e
      | Inr score \<Rightarrow>
          (case score_candidates rt query_title local_durations rest of
             Inl e \<Rightarrow> Inl e
           | Inr scored \<Rightarrow> Inr ((score, video) # scored)))"

text \<open>\<open>sort(key=lambda x: x[0], reverse=True)\<close>: descending by score and stable.\<close>

definition sort_by_score :: "(real \<times> dict) list \<Rightarrow> (real \<times> dict) list" where
  "sort_by_score scored = sort_key (\<lambda>(score, video). - score) scored"

text \<open>
  The scan \<open>for score, video in scored_candidates\<close> for the first candidate whose
  duration matches.
\<close>

fun first_match :: "runtime \<Rightarrow> pyfloat list \<Rightarrow> (real \<times> dict) list \<Rightarrow> pyexc + (real \<times> dict) option" where
  "first_match rt local_durations [] = Inr None"
| "first_match rt local_durations ((score, video) # rest) =
     (case extract_candidate_duration rt video of
        Inl e \<Rightarrow> Inl e
      | Inr duration \<Rightarrow>
          if duration_matches duration local_durations then Inr (Some (score, video))
          else first_match rt local_durations rest)"

text \<open>The decision on the ranked candidates (the end of \<open>_handle_search_results\<close>).\<close>

definition decide :: "runtime \<Rightarrow> json list \<Rightarrow> pyfloat list \<Rightarrow> (real \<times> dict) list \<Rightarrow> pyexc + json" where
  "decide rt candidates local_durations scored_candidates =
     (case scored_candidates of
        [] \<Rightarrow> build_selection_options rt (take 3 candidates)
      | (best_score, best_video) # _ \<Rightarrow>
          (case extract_candidate_duration rt best_video of
             Inl e \<Rightarrow> Inl e
           | Inr match_duration \<Rightarrow>
               if local_durations \<noteq> [] \<and> \<not> duration_matches match_duration local_durations
               then
                 (case first_match rt local_durations scored_candidates of
                    Inl e \<Rightarrow> Inl e
                  | Inr (Some (score, video)) \<Rightarrow> build_scene rt video
                  | Inr None \<Rightarrow>
                      (let top_candidates = take 3 (sort_by_score scored_candidates)
                       in build_selection_options rt (map (\<lambda>(s, v). JDict v) top_candidates)))
               else build_scene rt best_video))"

definition handle_search_results :: "runtime \<Rightarrow> net \<Rightarrow> trace \<Rightarrow> json list \<Rightarrow> string list \<Rightarrow> pyfloat list \<Rightarrow> json res \<times> trace" where
  "handle_search_results rt net t candidates tokens local_durations =
     (let query_title = join_spaces tokens
      in case fetch_details rt net t (candidates_to_process candidates tokens) of
           (Ok results_with_details, t') \<Rightarrow>
             (case score_candidates rt query_title local_durations results_with_details of
                Inl e \<Rightarrow> (Raise e, t')
              | Inr scored_candidates \<Rightarrow>
                  (lift (decide rt candidates local_durations (sort_by_score scored_candidates)), t'))
         | (Fail m, t') \<Rightarrow> (Fail m, t')
         | (Raise e, t') \<Rightarrow> (Raise e, t'))"

section \<open>Entry points\<close>

text \<open>
  The loop of \<open>_search_videos_with_retries\<close>, by the number of attempts left.
  \<open>data.get\<close> raises an \<open>AttributeError\<close> on a response that is a \<open>list\<close> or a \<open>str\<close>.
\<close>

fun search_attempts :: "nat \<Rightarrow> runtime \<Rightarrow> net \<Rightarrow> trace \<Rightarrow> string \<Rightarrow> string list \<Rightarrow> pyfloat list \<Rightarrow> json res \<times> trace" where
  "search_attempts 0 rt net t query tokens local_durations =
     (Fail (''No search results for query '' @ [CHR 0x27] @ query @ [CHR 0x27] @ '' after retries''), t)"
| "search_attempts (Suc n) rt net t query tokens local_durations =
     (case search_videos net t query of
        (Ok data, t') \<Rightarrow>
          (case error_in data of
             Inl e \<Rightarrow> (Raise e, t')
           | Inr True \<Rightarrow> (Ok data, t')
           | Inr False \<Rightarrow>
               (case data of
                  JDict d \<Rightarrow>
                    (let candidates = extract_video_candidates d
                     in if candidates \<noteq> []
                        then handle_search_results rt net t' candidates tokens local_durations
                        else search_attempts n rt net t' query tokens local_durations)
                | _ \<Rightarrow> (Raise AttributeError, t')))
      | (Fail m, t') \<Rightarrow> (Fail m, t')
      | (Raise e, t') \<Rightarrow> (Raise e, t'))"

definition search_videos_with_retries :: "runtime \<Rightarrow> net \<Rightarrow> trace \<Rightarrow> string \<Rightarrow> string list \<Rightarrow> pyfloat list \<Rightarrow> json res \<times> trace" where
  "search_videos_with_retries rt net t query tokens local_durations =
     search_attempts 3 rt net t query tokens local_durations"

text \<open>\<open>re.search(r"([a-f0-9]{24})", text)\<close>: the first 24 characters of the leftmost run.\<close>

fun search_hex24 :: "string \<Rightarrow> string option" where
  "search_hex24 [] = None"
| "search_hex24 (c # cs) =
     (if 24 \<le> length (takeWhile is_hex_lower (c # cs)) then Some (take 24 (c # cs))
      else search_hex24 cs)"

text \<open>\<open>_extract_scene_id(text)\<close>, called with \<open>text\<close> a true value or the empty string.\<close>

definition extract_scene_id :: "json \<Rightarrow> pyexc + string option" where
  "extract_scene_id text =
     (case py_or text (JStr []) of
        JStr s \<Rightarrow> Inr (search_hex24 s)
      | _ \<Rightarrow> Inl TypeError)"

text \<open>
  \<open>re.match\<close> of \<open>([A-Za-z0-9_-]+\.[A-Za-z0-9]+)$\<close> at the head of a string. Both runs are
  maximal (the character after a shorter run is not the one required), and \<open>$\<close> holds at
  the end of the string or before a newline that ends it.
\<close>

definition match_storage_key :: "string \<Rightarrow> string option" where
  "match_storage_key s =
     (let k = takeWhile is_key_char s
      in case dropWhile is_key_char s of
           [] \<Rightarrow> None
         | d # r \<Rightarrow>
             (let e = takeWhile is_ascii_alnum r; rest = dropWhile is_ascii_alnum r
              in if k \<noteq> [] \<and> d = CHR ''.'' \<and> e \<noteq> [] \<and> (rest = [] \<or> rest = [CHR 0x0A])
                 then Some (k @ ''.'' @ e) else None))"

fun search_storage_key :: "string \<Rightarrow> string option" where
  "search_storage_key [] = None"
| "search_storage_key (c # cs) =
     (case match_storage_key (c # cs) of
        Some key \<Rightarrow> Some key
      | None \<Rightarrow> search_storage_key cs)"

definition extract_storage_key :: "string \<Rightarrow> string option" where
  "extract_storage_key v =
     (if v = [] then None
      else
        let name = basename (before_first CHR ''?'' v)
        in case search_storage_key name of
             Some key \<Rightarrow> Some key
           | None \<Rightarrow> if CHR ''.'' \<in> set name then Some name else None)"

text \<open>The \<open>str\<close> behind a value that \<open>_extract_scene_id\<close> has accepted.\<close>

definition str_value :: "json \<Rightarrow> string" where
  "str_value v = (case py_or v (JStr []) of JStr s \<Rightarrow> s | _ \<Rightarrow> [])"

text \<open>\<open>a or b\<close> on values that are \<open>None\<close> or a \<open>str\<close>.\<close>

definition first_nonempty :: "string option \<Rightarrow> string option \<Rightarrow> string option" where
  "first_nonempty a b = (case a of Some s \<Rightarrow> if s \<noteq> [] then Some s else b | None \<Rightarrow> b)"

text \<open>The query of \<open>sceneByFragment\<close>, from the storage key, the title or the file name.\<close>

definition fragment_query :: "json \<Rightarrow> json \<Rightarrow> string" where
  "fragment_query filename title =
     (let storage_key = first_nonempty (extract_storage_key (str_value filename))
                          (extract_storage_key (str_value title));
          query_source =
            (case first_nonempty (first_nonempty storage_key (Some (str_value title)))
                    (Some (str_value filename)) of
               Some source \<Rightarrow> source
             | None \<Rightarrow> [])
      in build_search_query query_source)"

text \<open>
  \<open>sceneByFragment\<close>. The local durations are extracted before the scene id is looked
  for.
\<close>

definition scene_by_fragment :: "runtime \<Rightarrow> net \<Rightarrow> trace \<Rightarrow> json \<Rightarrow> json res \<times> trace" where
  "scene_by_fragment rt net t params =
     (let filename = py_or (dig params [''filename'']) (JStr []);
          title = py_or (dig params [''title'']) (JStr [])
      in case extract_local_durations rt params of
           Inl e \<Rightarrow> (Raise e, t)
         | Inr local_durations \<Rightarrow>
             (case extract_scene_id filename of
                Inl e \<Rightarrow> (Raise e, t)
              | Inr (Some scene_id) \<Rightarrow> get_video_by_id rt net t (JStr scene_id)
              | Inr None \<Rightarrow>
                  (case extract_scene_id title of
                     Inl e \<Rightarrow> (Raise e, t)
                   | Inr (Some scene_id) \<Rightarrow> get_video_by_id rt net t (JStr scene_id)
                   | Inr None \<Rightarrow>
                       (let query = fragment_query filename title;
                            tokens = extract_filename_tokens (str_value filename)
                        in if query = []
                           then (Fail ''Did not find a usable search query from fragment input'', t)
                           else search_videos_with_retries rt net t query tokens local_durations))))"

text \<open>\<open>url.rstrip("/")\<close>.\<close>

definition rstrip_slash :: "string \<Rightarrow> string" where
  "rstrip_slash s = rev (dropWhile (\<lambda>c. c = CHR ''/'') (rev s))"

text \<open>The slug of \<open>sceneByURL\<close>: \<open>url.rstrip("/").split("/")[-1].split("?")[0]\<close>.\<close>

definition url_slug :: "string \<Rightarrow> string" where
  "url_slug url =
     (let slug = after_last CHR ''/'' (rstrip_slash url);
          slug = before_first CHR ''?'' slug
      in slug)"

definition scene_by_url :: "runtime \<Rightarrow> net \<Rightarrow> trace \<Rightarrow> json \<Rightarrow> json res \<times> trace" where
  "scene_by_url rt net t params =
     (let url = py_or (dig params [''url'']) (JStr [])
      in case extract_local_durations rt params of
           Inl e \<Rightarrow> (Raise e, t)
         | Inr local_durations \<Rightarrow>
             (case extract_scene_id url of
                Inl e \<Rightarrow> (Raise e, t)
              | Inr (Some scene_id) \<Rightarrow> get_video_by_id rt net t (JStr scene_id)
              | Inr None \<Rightarrow>
                  (let slug = url_slug (str_value url)
                   in if slug \<noteq> []
                      then search_videos_with_retries rt net t (build_search_query slug) [] local_durations
                      else (Fail (''Did not find scene ID or slug from URL '' @ str_value url), t))))"

section \<open>Entry Dispatcher\<close>

text \<open>
  One invocation: the arguments after the script name and the standard input, which is
  blank, not JSON (with the text of the decoder's error), a JSON document, or input on
  which \<open>sys.stdin.read()\<close> or \<open>json.loads\<close> raises an exception that is not a JSON
  decode error.
\<close>

datatype stdin_input = Blank | Malformed string | Unreadable pyexc | Parsed json

record invocation =
  args :: "string list"
  stdin :: stdin_input

text \<open>What the process leaves: the JSON object on standard output and the exit status.\<close>

record outcome =
  stdout :: json
  exit_code :: int

definition exc_name :: "pyexc \<Rightarrow> string" where
  "exc_name e =
     (case e of
        TypeError \<Rightarrow> ''TypeError''
      | AttributeError \<Rightarrow> ''AttributeError''
      | OverflowError \<Rightarrow> ''OverflowError''
      | ValueError \<Rightarrow> ''ValueError''
      | RecursionError \<Rightarrow> ''RecursionError''
      | UnicodeDecodeError \<Rightarrow> ''UnicodeDecodeError'')"

text \<open>
  The body of the \<open>try\<close> block of \<open>__main__\<close>, up to the result that \<open>jprint\<close> receives,
  with the requests made. The input is read after the argument check.
\<close>

definition dispatch :: "runtime \<Rightarrow> net \<Rightarrow> invocation \<Rightarrow> json res \<times> trace" where
  "dispatch rt net call =
     (case args call of
        [] \<Rightarrow> (Fail ''Missing scrape method argument'', [])
      | calledFunction # _ \<Rightarrow>
          (case stdin call of
             Blank \<Rightarrow> (Fail ''No JSON input provided on stdin'', [])
           | Malformed exc \<Rightarrow> (Fail (''Invalid JSON input: '' @ exc), [])
           | Unreadable exc \<Rightarrow> (Raise exc, [])
           | Parsed params \<Rightarrow>
               if calledFunction = ''sceneByURL'' then scene_by_url rt net [] params
               else if calledFunction = ''sceneByFragment'' then scene_by_fragment rt net [] params
               else (Fail (''Unknown scrape method '' @ [CHR 0x27] @ calledFunction @ [CHR 0x27]), [])))"

definition error_object :: "string \<Rightarrow> json" where
  "error_object message = JDict [(''error'', JStr message)]"

text \<open>
  \<open>jprint\<close>, as the object that reaches standard output: the object itself, or, when
  \<open>json.dumps\<close> or the encoding raises (nothing has been written by then), the fixed
  object of the \<open>except\<close> branch. \<open>jprint\<close> returns in both cases.
\<close>

definition jprint :: "runtime \<Rightarrow> json \<Rightarrow> json" where
  "jprint rt obj = (if encodable rt obj then obj else error_object ''PMVHaven fatal print error'')"

text \<open>
  \<open>__main__\<close>: a returned result is printed and the process ends with status 0; \<open>fail\<close>
  prints its error object and exits with status 1; any other exception is converted
  into an error object, printed, with status 1. All three print with \<open>jprint\<close>.
\<close>

definition main :: "runtime \<Rightarrow> net \<Rightarrow> invocation \<Rightarrow> outcome" where
  "main rt net call =
     (case fst (dispatch rt net call) of
        Ok result \<Rightarrow> \<lparr>stdout = jprint rt result, exit_code = 0\<rparr>
      | Fail message \<Rightarrow> \<lparr>stdout = jprint rt (error_object message), exit_code = 1\<rparr>
      | Raise e \<Rightarrow>
          \<lparr>stdout = jprint rt (error_object (''Unhandled exception in scraper: '' @ exc_name e
                                               @ '': '' @ exc_text rt e)),
           exit_code = 1\<rparr>)"

section \<open>Notions used in the properties\<close>

text \<open>
  A runtime for the examples: equal strings have ratio 1, all others 0, and every value
  can be printed.
\<close>

definition example_runtime :: runtime where
  "example_runtime =
     \<lparr>str_of = (\<lambda>v. ''?''), float_of = (\<lambda>s. None),
      ratio = (\<lambda>a b. if a = b then 1 else 0), exc_text = (\<lambda>e. ''?''),
      encodable = (\<lambda>v. True)\<rparr>"

text \<open>A field that is absent, \<open>null\<close> or a string.\<close>

definition plain_field :: "dict \<Rightarrow> string \<Rightarrow> bool" where
  "plain_field d k =
     (case map_of d k of None \<Rightarrow> True | Some JNull \<Rightarrow> True | Some (JStr s) \<Rightarrow> True | Some v \<Rightarrow> False)"

definition required_keys :: "string list" where
  "required_keys = [''title'', ''url'', ''image'', ''date'', ''performers'', ''tags'']"

text \<open>
  The values at the places where the Duration Extractor looks, in the order in which it
  visits them: the top-level \<open>duration\<close>; then, when \<open>scene\<close> is a mapping,
  \<open>scene.duration\<close> and the \<open>duration\<close> of every mapping in \<open>scene.fingerprints\<close>, and
  otherwise the \<open>duration\<close> of every mapping in the top-level \<open>fingerprints\<close>.
\<close>

definition fingerprint_values :: "json \<Rightarrow> json list" where
  "fingerprint_values fingerprints =
     (case fingerprints of
        JList fs \<Rightarrow> concat (map (\<lambda>f. case f of JDict d \<Rightarrow> [get d ''duration''] | _ \<Rightarrow> []) fs)
      | _ \<Rightarrow> [])"

definition duration_locations :: "json \<Rightarrow> json list" where
  "duration_locations params =
     (case params of
        JDict p \<Rightarrow>
          get p ''duration'' #
            (case get p ''scene'' of
               JDict sc \<Rightarrow> get sc ''duration'' # fingerprint_values (get sc ''fingerprints'')
             | _ \<Rightarrow> fingerprint_values (get p ''fingerprints''))
      | _ \<Rightarrow> [])"

text \<open>
  The duration that \<open>_coerce_duration\<close> returns for a value, and \<open>None\<close> for a value on
  which it returns \<open>None\<close> or raises.
\<close>

definition coerced :: "runtime \<Rightarrow> json \<Rightarrow> pyfloat option" where
  "coerced rt v = (case coerce_duration rt v of Inr (Some d) \<Rightarrow> Some d | _ \<Rightarrow> None)"

text \<open>An \<open>int\<close> beyond the range of a \<open>float\<close>.\<close>

definition beyond_float :: "json \<Rightarrow> bool" where
  "beyond_float v = (case v of JInt i \<Rightarrow> float_limit \<le> \<bar>i\<bar> | _ \<Rightarrow> False)"

text \<open>The requests to the search endpoint.\<close>

definition is_search_request :: "request \<Rightarrow> bool" where
  "is_search_request r = (case r of Get url params \<Rightarrow> url = API_SEARCH)"

text \<open>
  The candidate list that a search attempt obtains from a reply: a JSON mapping without
  an \<open>error\<close> key, read by \<open>_extract_video_candidates\<close>.
\<close>

definition reply_candidates :: "reply \<Rightarrow> json list option" where
  "reply_candidates r =
     (case r of
        Body (JDict d) \<Rightarrow> if map_of d ''error'' = None then Some (extract_video_candidates d) else None
      | _ \<Rightarrow> None)"

text \<open>
  Whether a detail record passes the duration check against the local durations: its
  duration is extracted and matches.
\<close>

definition passes :: "runtime \<Rightarrow> pyfloat list \<Rightarrow> dict \<Rightarrow> bool" where
  "passes rt local_durations video =
     (case extract_candidate_duration rt video of
        Inl e \<Rightarrow> False
      | Inr duration \<Rightarrow> duration_matches duration local_durations)"

text \<open>The fields in which \<open>_extract_candidate_duration\<close> looks for the duration.\<close>

definition duration_keys :: "string list" where
  "duration_keys = [''duration'', ''durationSeconds'', ''length'', ''runtime'', ''runTime'', ''time'']"

text \<open>
  A detail record on which neither the scorer nor the selection options raise: its
  \<open>title\<close> and \<open>thumbnails\<close> are absent, \<open>null\<close> or strings, and none of its duration
  fields is an \<open>int\<close> beyond the range of a \<open>float\<close>.
\<close>

definition shortlist_ready :: "dict \<Rightarrow> bool" where
  "shortlist_ready video =
     (plain_field video ''title'' \<and> plain_field video ''thumbnails''
      \<and> list_all (\<lambda>key. \<not> beyond_float (get video key)) duration_keys)"

text \<open>
  A remote service for the examples. The search for \<open>alpha\<close> returns no candidates on
  the first two requests made and two candidates afterwards; the details of candidate
  \<open>a\<close> carry the title \<open>alpha\<close> and 300 seconds, those of \<open>b\<close> the title \<open>beta\<close> and 125
  seconds. \<open>empty_net\<close> never returns a candidate.
\<close>

definition example_record :: "string \<Rightarrow> string \<Rightarrow> int \<Rightarrow> dict" where
  "example_record video_id title seconds =
     [(''_id'', JStr video_id), (''title'', JStr title), (''duration'', JInt seconds)]"

definition watch_body :: "dict \<Rightarrow> reply" where
  "watch_body video = Body (JDict [(''data'', JDict [(''video'', JDict video)])])"

definition example_candidates :: "json list" where
  "example_candidates = [JDict [(''_id'', JStr ''a'')], JDict [(''_id'', JStr ''b'')]]"

definition example_net :: net where
  "example_net n r =
     (if r = search_request ''alpha''
      then Body (JDict [(''videos'', JList (if n < 2 then [] else example_candidates))])
      else if r = Get (watch_url example_runtime (JStr ''a'')) None
      then watch_body (example_record ''a'' ''alpha'' 300)
      else if r = Get (watch_url example_runtime (JStr ''b'')) None
      then watch_body (example_record ''b'' ''beta'' 125)
      else NonJson 404)"

definition empty_net :: net where
  "empty_net n r = Body (JDict [(''videos'', JList [])])"

definition example_trace :: trace where
  "example_trace =
     [Get (watch_url example_runtime (JStr ''a'')) None, Get (watch_url example_runtime (JStr ''b'')) None]"

text \<open>
  A detail record whose duration is an integer beyond the range of a float, and a
  remote service that returns it for every request.
\<close>

definition huge_record :: dict where
  "huge_record = [(''_id'', JStr ''a''), (''title'', JStr ''alpha''), (''duration'', JInt (10 ^ 309))]"

definition huge_net :: net where
  "huge_net n r = watch_body huge_record"

text \<open>
  Remote services and an invocation for the examples: every request fails in the
  transport, every response is not JSON, every response is a JSON object with an \<open>error\<close>
  key.
\<close>

definition down_net :: net where
  "down_net n r = TransportError ''timed out''"

definition broken_net :: net where
  "broken_net n r = NonJson 502"

definition error_net :: net where
  "error_net n r = Body (JDict [(''error'', JStr ''rate limited'')])"

definition example_call :: invocation where
  "example_call =
     \<lparr>args = [''sceneByURL''],
      stdin = Parsed (JDict [(''url'', JStr ''https://pmvhaven.com/video/some-title'')])\<rparr>"

text \<open>
  Two more for the examples: a lookup by the scene id in the URL, and a remote service
  whose first two responses hold no candidates and whose later responses are not JSON.
\<close>

definition example_id_call :: invocation where
  "example_id_call =
     \<lparr>args = [''sceneByURL''],
      stdin = Parsed (JDict [(''url'', JStr ''https://pmvhaven.com/video/x_0123456789abcdef01234567'')])\<rparr>"

definition late_broken_net :: net where
  "late_broken_net n r = (if n < 2 then Body (JDict [(''videos'', JList [])]) else NonJson 502)"

text \<open>A runtime in which the values to print cannot be encoded.\<close>

definition unprintable_runtime :: runtime where
  "unprintable_runtime = example_runtime\<lparr>encodable := (\<lambda>v. False)\<rparr>"

text \<open>
  The first \<open>k\<close> search attempts for a query, made from the trace \<open>t\<close> on, return an
  empty candidate list.
\<close>

definition attempts_empty :: "net \<Rightarrow> trace \<Rightarrow> string \<Rightarrow> nat \<Rightarrow> bool" where
  "attempts_empty net t q k =
     list_all (\<lambda>j. reply_candidates (net (length t + j) (search_request q)) = Some []) [0..<k]"

text \<open>
  Where an invocation goes once its input is read and its local durations are
  extracted: to the lookup of a scene id, or to the retry loop with a query, tokens and
  the local durations. There is none when the invocation ends before.
\<close>

datatype route = ById string | BySearch string "string list" "pyfloat list"

definition route_of :: "runtime \<Rightarrow> invocation \<Rightarrow> route option" where
  "route_of rt call =
     (case (args call, stdin call) of
        (calledFunction # _, Parsed params) \<Rightarrow>
          (case extract_local_durations rt params of
             Inl e \<Rightarrow> None
           | Inr local_durations \<Rightarrow>
               if calledFunction = ''sceneByURL''
               then
                 (let url = py_or (dig params [''url'']) (JStr [])
                  in case extract_scene_id url of
                       Inl e \<Rightarrow> None
                     | Inr (Some scene_id) \<Rightarrow> Some (ById scene_id)
                     | Inr None \<Rightarrow>
                         if url_slug (str_value url) \<noteq> []
                         then Some (BySearch (build_search_query (url_slug (str_value url))) []
                                      local_durations)
                         else None)
               else if calledFunction = ''sceneByFragment''
               then
                 (let filename = py_or (dig params [''filename'']) (JStr []);
                      title = py_or (dig params [''title'']) (JStr [])
                  in case extract_scene_id filename of
                       Inl e \<Rightarrow> None
                     | Inr (Some scene_id) \<Rightarrow> Some (ById scene_id)
                     | Inr None \<Rightarrow>
                         (case extract_scene_id title of
                            Inl e \<Rightarrow> None
                          | Inr (Some scene_id) \<Rightarrow> Some (ById scene_id)
                          | Inr None \<Rightarrow>
                              if fragment_query filename title \<noteq> []
                              then Some (BySearch (fragment_query filename title)
                                           (extract_filename_tokens (str_value filename))
                                           local_durations)
                              else None))
               else None)
      | _ \<Rightarrow> None)"

text \<open>
  A result that is the \<open>fail\<close> of \<open>_get_json\<close> on a transport error, and the invariant
  that a step which extends the trace has such a result whenever one of its requests
  failed in the transport.
\<close>

definition transport_failure :: "'a res \<Rightarrow> string \<Rightarrow> bool" where
  "transport_failure r e = (\<exists>context. r = Fail (context @ '': request failed: '' @ e))"

definition fatal_transport :: "net \<Rightarrow> trace \<Rightarrow> 'a res \<times> trace \<Rightarrow> bool" where
  "fatal_transport net t out =
     (\<exists>new. snd out = t @ new \<and>
        (\<forall>i e. i < length new \<and> net (length t + i) (new ! i) = TransportError e
            \<longrightarrow> transport_failure (fst out) e))"

text \<open>The stages of the Query Builder.\<close>

definition stage_name :: "string \<Rightarrow> string" where
  "stage_name v = (let name = strip_ext (basename v)
                   in replace_separators (case after_first_sep ''_-_'' name of Some rest \<Rightarrow> rest | None \<Rightarrow> name))"

text \<open>A string in which every whitespace character is a single blank between other characters
  or at an end.\<close>

fun collapsed :: "string \<Rightarrow> bool" where
  "collapsed [] = True"
| "collapsed [a] = (is_space a \<longrightarrow> a = CHR '' '')"
| "collapsed (a # b # r) = ((is_space a \<longrightarrow> a = CHR '' '' \<and> \<not> is_space b) \<and> collapsed (b # r))"

text \<open>
  A file extension as the Query Builder recognises it: a dot followed by at least one
  character and no further dot.
\<close>

definition has_extension :: "string \<Rightarrow> bool" where
  "has_extension q = (CHR ''.'' \<in> set q \<and> after_last CHR ''.'' q \<noteq> [])"

text \<open>A run of 8 or more digits that starts at a word boundary.\<close>

definition has_timestamp :: "string \<Rightarrow> bool" where
  "has_timestamp q = (search_boundary_run False q \<noteq> None)"

text \<open>A string that ends with a run of 8 or more digits.\<close>

definition ends_with_long_digit_run :: "string \<Rightarrow> bool" where
  "ends_with_long_digit_run q = (8 \<le> length (takeWhile is_digit (rev q)))"

text \<open>A string that ends with a whitespace character followed by 8 or more digits.\<close>

definition ends_with_spaced_digit_run :: "string \<Rightarrow> bool" where
  "ends_with_spaced_digit_run q =
     (8 \<le> length (takeWhile is_digit (rev q)) \<and>
      (case dropWhile is_digit (rev q) of [] \<Rightarrow> False | c # r \<Rightarrow> is_space c))"

text \<open>
  A string that holds a whitespace character, then 8 or more digits, then only
  whitespace.
\<close>

definition tail_run :: "string \<Rightarrow> bool" where
  "tail_run x =
     (\<exists>A w ds T. x = A @ [w] @ ds @ T \<and> is_space w \<and> 8 \<le> length ds
        \<and> list_all is_digit ds \<and> list_all is_space T)"

text \<open>The collapse of whitespace runs in \<open>cleanup_whitespace\<close>.\<close>

abbreviation collapse :: "string \<Rightarrow> string" where
  "collapse \<equiv> collapse_runs is_space CHR '' ''"

section \<open>Properties\<close>

text \<open>
  C5. On the file name \<open>tomtom10_-_Thicc_5_1766671291932_folhscuz.mp4\<close> the Token
  Extractor does not return the timestamp and its suffix: the combined pattern first
  matches the title's \<open>5\<close> followed by the timestamp, so the tokens are
  \<open>5_1766671291932\<close>, \<open>5\<close> and \<open>1766671291932\<close>.
\<close>

theorem extract_filename_tokens_type_b:
  "extract_filename_tokens ''tomtom10_-_Thicc_5_1766671291932_folhscuz.mp4''
     = [''5_1766671291932'', ''5'', ''1766671291932'']
   \<and> extract_filename_tokens ''tomtom10_-_Thicc_5_1766671291932_folhscuz.mp4''
     \<noteq> [''1766671291932_folhscuz'', ''1766671291932'', ''folhscuz'']"
  by code_simp

lemma build_scene_shape:
  assumes "build_scene rt video = Inr scene"
  shows "\<exists>title url img date performers tags.
           scene = JDict ([(''title'', title), (''url'', url), (''image'', img), (''date'', JStr date),
                           (''performers'', performers), (''tags'', tags)] @ optional_fields video)
           \<and> (map_of video ''uploadDate'' = None \<and> map_of video ''isoDate'' = None \<longrightarrow> date = [])"
  using assms unfolding build_scene_def Let_def
  by (auto simp: get_def get_default_def py_or_def before_first_def split: sum.splits json.splits)

lemma build_scene_returns:
  assumes "plain_field video ''title''" "plain_field video ''thumbnails''"
    "plain_field video ''uploadDate''" "plain_field video ''isoDate''"
  shows "\<exists>scene. build_scene rt video = Inr scene"
proof -
  have 1: "\<exists>slug. slugify (py_or (get video ''title'') (JStr [])) = Inr slug"
    using assms(1)
    by (auto simp: plain_field_def slugify_def py_or_def get_def get_default_def split: option.splits json.splits)
  have 2: "\<exists>img. pick_image video = Inr img"
    using assms(2)
    by (auto simp: plain_field_def pick_image_def py_or_def get_def get_default_def Let_def split: option.splits json.splits)
  have 3: "\<exists>date. py_or (py_or (get video ''uploadDate'') (get video ''isoDate'')) (JStr []) = JStr date"
    using assms(3,4)
    by (auto simp: plain_field_def py_or_def get_def get_default_def split: option.splits json.splits)
  from 1 2 3 show ?thesis
    unfolding build_scene_def Let_def by auto
qed

text \<open>
  C10. Whenever \<open>_build_scene\<close> builds a scene, the scene has the keys \<open>title\<close>, \<open>url\<close>,
  \<open>image\<close>, \<open>date\<close>, \<open>performers\<close> and \<open>tags\<close>, and its date is the empty string when
  the record has neither \<open>uploadDate\<close> nor \<open>isoDate\<close>. A scene is built for every record
  whose \<open>title\<close>, \<open>thumbnails\<close>, \<open>uploadDate\<close> and \<open>isoDate\<close> are absent, \<open>null\<close> or
  strings, whatever else is missing.
\<close>

theorem build_scene_required_keys:
  "(plain_field video ''title'' \<and> plain_field video ''thumbnails'' \<and>
    plain_field video ''uploadDate'' \<and> plain_field video ''isoDate''
      \<longrightarrow> (\<exists>scene. build_scene rt video = Inr scene))
   \<and> (\<forall>scene. build_scene rt video = Inr scene \<longrightarrow>
        (\<exists>kvs. scene = JDict kvs \<and> list_all (\<lambda>k. map_of kvs k \<noteq> None) required_keys
           \<and> (map_of video ''uploadDate'' = None \<and> map_of video ''isoDate'' = None
                \<longrightarrow> map_of kvs ''date'' = Some (JStr []))))"
proof (intro conjI impI allI)
  assume "plain_field video ''title'' \<and> plain_field video ''thumbnails'' \<and>
    plain_field video ''uploadDate'' \<and> plain_field video ''isoDate''"
  then show "\<exists>scene. build_scene rt video = Inr scene"
    using build_scene_returns by blast
next
  fix scene
  assume "build_scene rt video = Inr scene"
  from build_scene_shape[OF this]
  show "\<exists>kvs. scene = JDict kvs \<and> list_all (\<lambda>k. map_of kvs k \<noteq> None) required_keys
           \<and> (map_of video ''uploadDate'' = None \<and> map_of video ''isoDate'' = None
                \<longrightarrow> map_of kvs ''date'' = Some (JStr []))"
    by (auto simp: required_keys_def)
qed

theorem build_scene_required_keys_witness:
  "plain_field [] ''title'' \<and> plain_field [] ''thumbnails'' \<and>
   plain_field [] ''uploadDate'' \<and> plain_field [] ''isoDate'' \<and>
   build_scene example_runtime [] =
     Inr (JDict [(''title'', JStr []), (''url'', JStr ''https://pmvhaven.com/video/''),
                 (''image'', JStr []), (''date'', JStr []), (''performers'', JList []),
                 (''tags'', JList [])]) \<and>
   list_all (\<lambda>k. map_of [(''title'', JStr []), (''url'', JStr ''https://pmvhaven.com/video/''),
                 (''image'', JStr []), (''date'', JStr []), (''performers'', JList []),
                 (''tags'', JList [])] k \<noteq> None) required_keys"
proof -
  have e: "build_scene example_runtime [] =
     Inr (JDict [(''title'', JStr []), (''url'', JStr ''https://pmvhaven.com/video/''),
                 (''image'', JStr []), (''date'', JStr []), (''performers'', JList []),
                 (''tags'', JList [])])"
    by code_simp
  have p: "plain_field [] ''title'' \<and> plain_field [] ''thumbnails'' \<and>
   plain_field [] ''uploadDate'' \<and> plain_field [] ''isoDate''"
    by (simp add: plain_field_def)
  from build_scene_required_keys[of "[]" example_runtime] e p show ?thesis
    by auto
qed

lemma float_limit_power: "float_limit = 2 ^ 1024 - 2 ^ 970"
  by (simp add: float_limit_def)

lemma coerce_duration_raises:
  "coerce_duration rt v = Inl e \<longleftrightarrow> e = OverflowError \<and> beyond_float v"
  by (cases v) (auto simp: coerce_duration_def beyond_float_def float_overflow_def)

lemma coerce_duration_coerced:
  "\<not> beyond_float v \<Longrightarrow> coerce_duration rt v = Inr (coerced rt v)"
  by (cases v) (auto simp: coerce_duration_def coerced_def beyond_float_def float_overflow_def
      split: option.splits)

lemma first_duration_raises:
  "first_duration rt video keys = Inl e \<Longrightarrow>
     e = OverflowError \<and> list_ex (\<lambda>key. beyond_float (get video key)) keys"
proof (induction keys)
  case Nil
  then show ?case by simp
next
  case (Cons key keys)
  show ?case
  proof (cases "coerce_duration rt (get video key)")
    case (Inl e')
    then show ?thesis using Cons.prems coerce_duration_raises[of rt "get video key" e'] by simp
  next
    case (Inr d)
    then show ?thesis using Cons by (cases d) auto
  qed
qed

lemma first_duration_returns:
  "list_all (\<lambda>key. \<not> beyond_float (get video key)) keys \<Longrightarrow> \<exists>d. first_duration rt video keys = Inr d"
proof (induction keys)
  case Nil
  then show ?case by simp
next
  case (Cons key keys)
  then have "coerce_duration rt (get video key) = Inr (coerced rt (get video key))"
    by (simp add: coerce_duration_coerced)
  then show ?case using Cons by (cases "coerced rt (get video key)") auto
qed

lemma extract_candidate_duration_raises:
  "extract_candidate_duration rt video = Inl e \<Longrightarrow>
     e = OverflowError \<and> list_ex (\<lambda>key. beyond_float (get video key)) duration_keys"
  unfolding extract_candidate_duration_def duration_keys_def by (rule first_duration_raises)

lemma extract_candidate_duration_returns:
  "list_all (\<lambda>key. \<not> beyond_float (get video key)) duration_keys
     \<Longrightarrow> \<exists>d. extract_candidate_duration rt video = Inr d"
  unfolding extract_candidate_duration_def duration_keys_def by (rule first_duration_returns)

lemma calculate_score_plain:
  assumes "plain_field d ''title''" "list_all (\<lambda>key. \<not> beyond_float (get d key)) duration_keys"
  shows "\<exists>s. calculate_score rt d q local = Inr s"
proof -
  obtain x where "extract_candidate_duration rt d = Inr x"
    using extract_candidate_duration_returns[OF assms(2)] by blast
  then show ?thesis using assms(1)
    by (auto simp: plain_field_def calculate_score_def get_default_def Let_def
        split: option.splits json.splits)
qed

text \<open>
  C9. Given a similarity ratio between 0 and 1, every score that \<open>_calculate_score\<close>
  returns lies between 0 and 150: it is 100 times a ratio between 0 and 1 plus a bonus
  of 0 or 50, and the bonus is 50 exactly when local durations are known and the
  record's duration matches one of them. It returns a score for every record whose
  title is absent, \<open>null\<close> or a string and whose duration fields hold no integer beyond
  the range of a float; it raises only an \<open>AttributeError\<close>, when the query title is not
  empty and the record's title is a true value that is not a string, or an
  \<open>OverflowError\<close>, when a duration field holds an integer beyond the range of a float.
\<close>

theorem calculate_score_range:
  assumes "\<forall>a b. 0 \<le> ratio rt a b \<and> ratio rt a b \<le> 1"
  shows "(case calculate_score rt video query_title local_durations of
            Inl e \<Rightarrow>
              (e = AttributeError \<and> query_title \<noteq> [] \<and> truthy (get_default video ''title'' (JStr []))
                 \<and> \<not> is_str (get_default video ''title'' (JStr [])))
              \<or> (e = OverflowError \<and> list_ex (\<lambda>key. beyond_float (get video key)) duration_keys)
          | Inr score \<Rightarrow>
              0 \<le> score \<and> score \<le> 150 \<and>
              (\<exists>r bonus. score = 100 * r + bonus \<and> 0 \<le> r \<and> r \<le> 1 \<and> (bonus = 0 \<or> bonus = 50)
                 \<and> (bonus = 50 \<longleftrightarrow> local_durations \<noteq> [] \<and> passes rt local_durations video)))
         \<and> (plain_field video ''title''
               \<and> list_all (\<lambda>key. \<not> beyond_float (get video key)) duration_keys
             \<longrightarrow> (\<exists>score. calculate_score rt video query_title local_durations = Inr score))"
proof (intro conjI impI)
  let ?t = "get_default video ''title'' (JStr [])"
  let ?m = "local_durations \<noteq> [] \<and> passes rt local_durations video"
  let ?b = "if ?m then 50 else (0::real)"
  let ?goal = "case calculate_score rt video query_title local_durations of
            Inl e \<Rightarrow>
              (e = AttributeError \<and> query_title \<noteq> [] \<and> truthy ?t \<and> \<not> is_str ?t)
              \<or> (e = OverflowError \<and> list_ex (\<lambda>key. beyond_float (get video key)) duration_keys)
          | Inr score \<Rightarrow>
              0 \<le> score \<and> score \<le> 150 \<and>
              (\<exists>r bonus. score = 100 * r + bonus \<and> 0 \<le> r \<and> r \<le> 1 \<and> (bonus = 0 \<or> bonus = 50)
                 \<and> (bonus = 50 \<longleftrightarrow> ?m))"
  have returned: "0 \<le> r * 100 + ?b \<and> r * 100 + ?b \<le> 150 \<and>
              (\<exists>r' bonus. r * 100 + ?b = 100 * r' + bonus \<and> 0 \<le> r' \<and> r' \<le> 1 \<and> (bonus = 0 \<or> bonus = 50)
                 \<and> (bonus = 50 \<longleftrightarrow> ?m))" if "0 \<le> r" "r \<le> 1" for r :: real
  proof -
    have "\<exists>r' bonus. r * 100 + ?b = 100 * r' + bonus \<and> 0 \<le> r' \<and> r' \<le> 1 \<and> (bonus = 0 \<or> bonus = 50)
                 \<and> (bonus = 50 \<longleftrightarrow> ?m)"
      by (rule exI[of _ r], rule exI[of _ ?b]) (use that in simp)
    moreover have "0 \<le> r * 100 + ?b" "r * 100 + ?b \<le> 150" using that by auto
    ultimately show ?thesis by blast
  qed
  show ?goal
  proof (cases "query_title \<noteq> [] \<and> truthy ?t \<and> \<not> is_str ?t")
    case True
    then have "calculate_score rt video query_title local_durations = Inl AttributeError"
      by (cases ?t) (auto simp: calculate_score_def Let_def is_str_def)
    then show ?thesis using True by simp
  next
    case title: False
    define r where "r = (if query_title \<noteq> [] \<and> truthy ?t
                         then (case ?t of JStr t \<Rightarrow> ratio rt query_title t | _ \<Rightarrow> 0) else 0)"
    have r: "0 \<le> r" "r \<le> 1"
      using assms by (auto simp: r_def split: json.splits)
    have first: "(if query_title \<noteq> [] \<and> truthy ?t
               then (case ?t of
                       JStr t \<Rightarrow> Inr (0 + ratio rt query_title t * 100)
                     | _ \<Rightarrow> Inl AttributeError)
               else Inr 0) = (Inr (r * 100) :: pyexc + real)"
      using title by (cases ?t) (auto simp: r_def is_str_def)
    show ?thesis
    proof (cases "extract_candidate_duration rt video")
      case (Inl e)
      then have "calculate_score rt video query_title local_durations = Inl e"
        unfolding calculate_score_def Let_def first by simp
      then show ?thesis using extract_candidate_duration_raises[OF Inl] by simp
    next
      case (Inr d)
      then have "calculate_score rt video query_title local_durations = Inr (r * 100 + ?b)"
        unfolding calculate_score_def Let_def first by (simp add: passes_def)
      then show ?thesis using returned[OF r] by simp
    qed
  qed
next
  assume "plain_field video ''title''
            \<and> list_all (\<lambda>key. \<not> beyond_float (get video key)) duration_keys"
  then show "\<exists>score. calculate_score rt video query_title local_durations = Inr score"
    using calculate_score_plain by blast
qed

theorem calculate_score_range_witness:
  "(\<forall>a b. 0 \<le> ratio example_runtime a b \<and> ratio example_runtime a b \<le> 1)
   \<and> plain_field [(''title'', JStr ''Thicc 5''), (''duration'', JInt 125)] ''title''
   \<and> list_all (\<lambda>key. \<not> beyond_float (get [(''title'', JStr ''Thicc 5''), (''duration'', JInt 125)] key))
        duration_keys
   \<and> (\<exists>score. calculate_score example_runtime [(''title'', JStr ''Thicc 5''), (''duration'', JInt 125)]
                 ''Thicc 5'' [Fin 120] = Inr score \<and> 0 \<le> score \<and> score \<le> 150)
   \<and> calculate_score example_runtime [(''title'', JStr ''Thicc 5''), (''duration'', JInt 125)] ''Thicc 5'' [Fin 120] = Inr 150
   \<and> calculate_score example_runtime [(''title'', JStr ''Thicc 5''), (''duration'', JInt 125)] ''Thicc 5'' [Fin 200] = Inr 100
   \<and> calculate_score example_runtime [(''title'', JStr ''Other''), (''duration'', JInt 125)] ''Thicc 5'' [Fin 200] = Inr 0
   \<and> calculate_score example_runtime [(''title'', JInt 7)] ''Thicc 5'' [] = Inl AttributeError
   \<and> calculate_score example_runtime [(''title'', JStr ''alpha''), (''duration'', JInt (10 ^ 309))] ''alpha'' [Fin 120]
       = Inl OverflowError"
proof -
  let ?v = "[(''title'', JStr ''Thicc 5''), (''duration'', JInt 125)]"
  have h: "\<forall>a b. 0 \<le> ratio example_runtime a b \<and> ratio example_runtime a b \<le> 1"
    by (simp add: example_runtime_def)
  have p: "plain_field ?v ''title''"
    "list_all (\<lambda>key. \<not> beyond_float (get ?v key)) duration_keys"
    by code_simp+
  have e: "calculate_score example_runtime ?v ''Thicc 5'' [Fin 120] = Inr 150"
    "calculate_score example_runtime ?v ''Thicc 5'' [Fin 200] = Inr 100"
    "calculate_score example_runtime [(''title'', JStr ''Other''), (''duration'', JInt 125)] ''Thicc 5'' [Fin 200] = Inr 0"
    "calculate_score example_runtime [(''title'', JInt 7)] ''Thicc 5'' [] = Inl AttributeError"
    by code_simp+
  have o: "calculate_score example_runtime [(''title'', JStr ''alpha''), (''duration'', JInt (10 ^ 309))] ''alpha'' [Fin 120]
       = Inl OverflowError"
    by code_simp
  note inst = calculate_score_range[OF h, where video = ?v and query_title = "''Thicc 5''"
      and local_durations = "[Fin 120]"]
  from inst p obtain score where
    s: "calculate_score example_runtime ?v ''Thicc 5'' [Fin 120] = Inr score"
    by blast
  with inst have "0 \<le> score \<and> score \<le> 150" by simp
  with s have "\<exists>score. calculate_score example_runtime ?v ''Thicc 5'' [Fin 120] = Inr score
                 \<and> 0 \<le> score \<and> score \<le> 150"
    by blast
  with h p e o show ?thesis by blast
qed

lemma map_filter_append: "List.map_filter f (xs @ ys) = List.map_filter f xs @ List.map_filter f ys"
  by (simp add: List.map_filter_def)

lemma collect_eq:
  "collect rt durations v =
     (if beyond_float v then Inl OverflowError
      else Inr (durations @ List.map_filter (coerced rt) [v]))"
proof (cases "beyond_float v")
  case True
  then have "coerce_duration rt v = Inl OverflowError"
    using coerce_duration_raises[of rt v OverflowError] by simp
  then show ?thesis using True by (simp add: collect_def)
next
  case False
  then show ?thesis
    by (simp add: collect_def coerce_duration_coerced List.map_filter_def split: option.splits)
qed

lemma collect_fingerprints_eq:
  "collect_fingerprints rt durations fs =
     (if list_ex beyond_float (fingerprint_values (JList fs)) then Inl OverflowError
      else Inr (durations @ List.map_filter (coerced rt) (fingerprint_values (JList fs))))"
proof (induction fs arbitrary: durations)
  case Nil
  then show ?case by (simp add: fingerprint_values_def List.map_filter_def)
next
  case (Cons f fs)
  show ?case
  proof (cases f)
    case (JDict d)
    have fv: "fingerprint_values (JList (JDict d # fs)) = get d ''duration'' # fingerprint_values (JList fs)"
      by (simp add: fingerprint_values_def)
    show ?thesis
    proof (cases "beyond_float (get d ''duration'')")
      case True
      then show ?thesis using JDict by (simp add: fv collect_eq)
    next
      case False
      then show ?thesis
        using JDict Cons.IH[of "durations @ List.map_filter (coerced rt) [get d ''duration'']"]
        by (simp add: fv collect_eq List.map_filter_def)
    qed
  qed (use Cons.IH[of durations] in \<open>simp_all add: fingerprint_values_def\<close>)
qed

lemma collect_list_eq:
  "collect_list rt durations fp =
     (if list_ex beyond_float (fingerprint_values fp) then Inl OverflowError
      else Inr (durations @ List.map_filter (coerced rt) (fingerprint_values fp)))"
  by (cases fp) (simp_all add: collect_list_def collect_fingerprints_eq,
      simp_all add: fingerprint_values_def List.map_filter_def)

lemma extract_local_durations_eq:
  "extract_local_durations rt params =
     (if list_ex beyond_float (duration_locations params) then Inl OverflowError
      else Inr (List.map_filter (coerced rt) (duration_locations params)))"
proof (cases params)
  case (JDict p)
  define rest where "rest = tl (duration_locations (JDict p))"
  have loc: "duration_locations (JDict p) = get p ''duration'' # rest"
    by (simp add: rest_def duration_locations_def)
  have scene: "(case get p ''scene'' of
                  JDict scene \<Rightarrow>
                    (case collect rt durations (get scene ''duration'') of
                       Inl e \<Rightarrow> Inl e
                     | Inr durations \<Rightarrow> collect_list rt durations (get scene ''fingerprints''))
                | _ \<Rightarrow> collect_list rt durations (get p ''fingerprints''))
          = (if list_ex beyond_float rest then Inl OverflowError
             else Inr (durations @ List.map_filter (coerced rt) rest))"
    for durations
    unfolding rest_def
    by (cases "get p ''scene''")
       (simp_all add: duration_locations_def collect_list_eq collect_eq List.map_filter_def)
  show ?thesis
    unfolding extract_local_durations_def JDict loc
    by (simp add: scene collect_eq List.map_filter_def)
qed (simp_all add: extract_local_durations_def duration_locations_def List.map_filter_def)

text \<open>
  C8 (amended). The Duration Extractor visits the top-level \<open>duration\<close>, then, when
  \<open>scene\<close> is a mapping, \<open>scene.duration\<close> and the \<open>duration\<close> of every mapping in
  \<open>scene.fingerprints\<close>, and otherwise the \<open>duration\<close> of every mapping in the top-level
  \<open>fingerprints\<close>. Unless one of the visited values is an integer beyond the range of a
  float (the conversion then raises an \<open>OverflowError\<close>), it returns, in visiting order,
  the coerced value of every visited value that can be coerced: an integer, a boolean
  (as 1 or 0), a float, and a string that \<open>float\<close> accepts. \<open>null\<close>, lists, mappings and
  other strings are left out. Nothing removes repeated values. An integer is beyond the
  range of a float from \<open>2 ^ 1024 - 2 ^ 970\<close> on in magnitude.
\<close>

theorem extract_local_durations_collects:
  "extract_local_durations rt params =
     (if list_ex beyond_float (duration_locations params) then Inl OverflowError
      else Inr (List.map_filter (coerced rt) (duration_locations params)))
   \<and> coerced rt JNull = None \<and> coerced rt (JList xs) = None \<and> coerced rt (JDict d) = None
   \<and> coerced rt (JBool b) = Some (Fin (if b then 1 else 0))
   \<and> coerced rt (JInt i) = (if beyond_float (JInt i) then None else Some (Fin (of_int i)))
   \<and> coerced rt (JFloat f) = Some f
   \<and> coerced rt (JStr s) = float_of rt s
   \<and> beyond_float v = (\<exists>j. v = JInt j \<and> 2 ^ 1024 - 2 ^ 970 \<le> \<bar>j\<bar>)"
proof -
  have "coerced rt (JStr s) = float_of rt s"
    by (cases "float_of rt s") (simp_all add: coerced_def coerce_duration_def)
  moreover have "beyond_float v = (\<exists>j. v = JInt j \<and> 2 ^ 1024 - 2 ^ 970 \<le> \<bar>j\<bar>)"
    by (cases v) (simp_all add: beyond_float_def float_limit_power)
  ultimately show ?thesis
    by (simp add: extract_local_durations_eq)
       (simp add: coerced_def coerce_duration_def beyond_float_def float_overflow_def)
qed

text \<open>
  The list is not deduplicated: a fragment whose top-level duration and scene duration
  are both 120 yields 120 twice. The top-level \<open>fingerprints\<close> are not visited when
  \<open>scene\<close> is a mapping. A boolean is not ignored: \<open>true\<close> is collected as 1. An integer
  beyond the range of a float is not ignored either: no list is returned.
\<close>

theorem extract_local_durations_duplicates:
  "extract_local_durations example_runtime
      (JDict [(''duration'', JInt 120), (''scene'', JDict [(''duration'', JInt 120)])])
     = Inr [Fin 120, Fin 120]
   \<and> \<not> distinct [Fin 120, Fin (120 :: real)]
   \<and> extract_local_durations example_runtime
        (JDict [(''scene'', JDict []), (''fingerprints'', JList [JDict [(''duration'', JInt 7)]])])
     = Inr []
   \<and> extract_local_durations example_runtime (JDict [(''duration'', JBool True)]) = Inr [Fin 1]
   \<and> extract_local_durations example_runtime (JDict [(''duration'', JInt (10 ^ 309))])
     = Inl OverflowError"
  by code_simp

lemma get_json_trace [simp]: "snd (get_json net t url ctx params) = t @ [Get url params]"
  by (simp add: get_json_def Let_def)

lemma watch_url_not_search: "watch_url rt v \<noteq> API_SEARCH"
proof
  assume "watch_url rt v = API_SEARCH"
  then have "last (watch_url rt v) = last API_SEARCH" by simp
  then show False by (simp add: watch_url_def API_SEARCH_def)
qed

lemma search_videos_eq:
  "search_videos net t q =
     (fst (get_json net t API_SEARCH ''search_videos'' (Some [(''limit'', JInt 32), (''page'', JInt 1), (''q'', JStr q)])),
      t @ [search_request q])"
  by (simp add: search_videos_def search_request_def get_json_def Let_def)

lemma get_video_details_trace:
  "snd (get_video_details rt net t v) = t @ [Get (watch_url rt v) None]"
  by (auto simp: get_video_details_def get_watch_page_def get_json_def Let_def
      split: reply.splits sum.splits bool.splits json.splits)

lemma fetch_candidate_details_trace:
  "\<exists>ws. snd (fetch_candidate_details rt net t c) = t @ ws \<and> (\<forall>r\<in>set ws. \<not> is_search_request r)"
proof (cases c)
  case (JDict d)
  show ?thesis
  proof (cases "truthy (get_video_id d)")
    case True
    obtain r t' where g: "get_video_details rt net t (get_video_id d) = (r, t')" by force
    then have "t' = t @ [Get (watch_url rt (get_video_id d)) None]"
      using get_video_details_trace[of rt net t "get_video_id d"] by simp
    then show ?thesis using JDict True g
      by (auto simp: fetch_candidate_details_def Let_def is_search_request_def watch_url_not_search
          split: res.splits details.splits)
  qed (use JDict in \<open>simp add: fetch_candidate_details_def\<close>)
qed (simp_all add: fetch_candidate_details_def)

lemma fetch_loop_trace:
  "\<exists>ws. snd (fetch_loop rt net t cs acc) = t @ ws \<and> (\<forall>r\<in>set ws. \<not> is_search_request r)"
proof (induction cs arbitrary: t acc)
  case Nil
  then show ?case by simp
next
  case (Cons c cs)
  obtain r t1 where f: "fetch_candidate_details rt net t c = (r, t1)" by force
  obtain ws where ws: "t1 = t @ ws" "\<forall>r\<in>set ws. \<not> is_search_request r"
    using fetch_candidate_details_trace[of rt net t c] f by auto
  have step: "\<And>acc'. \<exists>ws'. snd (fetch_loop rt net t1 cs acc') = t @ ws' \<and> (\<forall>r\<in>set ws'. \<not> is_search_request r)"
  proof -
    fix acc'
    obtain ws2 where "snd (fetch_loop rt net t1 cs acc') = t1 @ ws2" "\<forall>r\<in>set ws2. \<not> is_search_request r"
      using Cons.IH[of t1 acc'] by auto
    then show "\<exists>ws'. snd (fetch_loop rt net t1 cs acc') = t @ ws' \<and> (\<forall>r\<in>set ws'. \<not> is_search_request r)"
      using ws by (intro exI[of _ "ws @ ws2"]) auto
  qed
  have here: "\<exists>ws'. t1 = t @ ws' \<and> (\<forall>r\<in>set ws'. \<not> is_search_request r)"
    using ws by auto
  show ?case using f step here
    by (auto split: res.splits option.splits json.splits)
qed

lemma fetch_details_trace:
  "\<exists>ws. snd (fetch_details rt net t cs) = t @ ws \<and> (\<forall>r\<in>set ws. \<not> is_search_request r)"
  using fetch_loop_trace[of rt net t cs "[]"]
  by (auto simp: fetch_details_def split: prod.splits res.splits)

lemma handle_search_results_trace:
  "\<exists>ws. snd (handle_search_results rt net t cands tokens local) = t @ ws \<and> (\<forall>r\<in>set ws. \<not> is_search_request r)"
  using fetch_details_trace[of rt net t "candidates_to_process cands tokens"]
  by (auto simp: handle_search_results_def Let_def split: prod.splits res.splits sum.splits)

lemma search_attempts_empty:
  assumes "reply_candidates (net (length t) (search_request q)) = Some []"
  shows "search_attempts (Suc n) rt net t q tokens local
           = search_attempts n rt net (t @ [search_request q]) q tokens local"
  using assms
  by (auto simp: reply_candidates_def search_videos_def get_json_def Let_def search_request_def error_in_def
      split: reply.splits json.splits if_splits)

lemma search_attempts_found:
  assumes "reply_candidates (net (length t) (search_request q)) = Some cands" "cands \<noteq> []"
  shows "search_attempts (Suc n) rt net t q tokens local
           = handle_search_results rt net (t @ [search_request q]) cands tokens local"
  using assms
  by (auto simp: reply_candidates_def search_videos_def get_json_def Let_def search_request_def error_in_def
      split: reply.splits json.splits if_splits)

lemma is_search_request_search [simp]: "is_search_request (search_request q)"
  by (simp add: is_search_request_def search_request_def)

lemma filter_non_search: "\<forall>r\<in>set ws. \<not> is_search_request r \<Longrightarrow> filter is_search_request ws = []"
  by (induction ws) auto

lemma search_attempts_trace:
  "\<exists>new k. snd (search_attempts n rt net t q tokens local) = t @ new
      \<and> filter is_search_request new = replicate k (search_request q) \<and> k \<le> n"
proof (induction n arbitrary: t)
  case 0
  show ?case by (intro exI[of _ "[]"] exI[of _ 0]) simp
next
  case (Suc n)
  let ?t1 = "t @ [search_request q]"
  define P where "P = (\<lambda>t'. \<exists>new k. t' = t @ new
      \<and> filter is_search_request new = replicate k (search_request q) \<and> k \<le> Suc n)"
  have one: "P ?t1"
    unfolding P_def by (intro exI[of _ "[search_request q]"] exI[of _ 1]) simp
  have handle: "P (snd (handle_search_results rt net ?t1 cands tokens local))" for cands
  proof -
    obtain ws where ws: "snd (handle_search_results rt net ?t1 cands tokens local) = ?t1 @ ws"
      "\<forall>r\<in>set ws. \<not> is_search_request r"
      using handle_search_results_trace by blast
    show ?thesis unfolding P_def
      by (intro exI[of _ "search_request q # ws"] exI[of _ 1]) (use ws in \<open>simp add: filter_non_search\<close>)
  qed
  have rec: "P (snd (search_attempts n rt net ?t1 q tokens local))"
  proof -
    obtain new k where nk: "snd (search_attempts n rt net ?t1 q tokens local) = ?t1 @ new"
      "filter is_search_request new = replicate k (search_request q)" "k \<le> n"
      using Suc.IH[of ?t1] by blast
    show ?thesis unfolding P_def
      by (intro exI[of _ "search_request q # new"] exI[of _ "Suc k"]) (use nk in simp)
  qed
  have "P (snd (search_attempts (Suc n) rt net t q tokens local))"
    using one handle rec
    by (simp add: search_videos_eq Let_def split: res.splits sum.splits bool.splits json.splits)
  then show ?case unfolding P_def .
qed

text \<open>
  C3. The retry loop sends at most 3 search requests, all with the same query. When the
  first two attempts return an empty candidate list and the third a non-empty one, the
  resolution is the one of \<open>_handle_search_results\<close> on the third attempt's candidates;
  when all three return an empty list, it fails with the "no search results" error that
  names the query.
\<close>

theorem retry_loop:
  "(\<exists>new k. snd (search_videos_with_retries rt net t q tokens local) = t @ new
       \<and> filter is_search_request new = replicate k (search_request q) \<and> k \<le> 3)
   \<and> (reply_candidates (net (length t) (search_request q)) = Some []
        \<and> reply_candidates (net (length t + 1) (search_request q)) = Some []
        \<and> reply_candidates (net (length t + 2) (search_request q)) = Some cands \<and> cands \<noteq> []
      \<longrightarrow> search_videos_with_retries rt net t q tokens local
            = handle_search_results rt net (t @ replicate 3 (search_request q)) cands tokens local)
   \<and> (reply_candidates (net (length t) (search_request q)) = Some []
        \<and> reply_candidates (net (length t + 1) (search_request q)) = Some []
        \<and> reply_candidates (net (length t + 2) (search_request q)) = Some []
      \<longrightarrow> search_videos_with_retries rt net t q tokens local
            = (Fail (''No search results for query '' @ [CHR 0x27] @ q @ [CHR 0x27] @ '' after retries''),
               t @ replicate 3 (search_request q)))"
proof (intro conjI impI)
  show "\<exists>new k. snd (search_videos_with_retries rt net t q tokens local) = t @ new
       \<and> filter is_search_request new = replicate k (search_request q) \<and> k \<le> 3"
    unfolding search_videos_with_retries_def by (rule search_attempts_trace)
next
  assume a: "reply_candidates (net (length t) (search_request q)) = Some []
        \<and> reply_candidates (net (length t + 1) (search_request q)) = Some []
        \<and> reply_candidates (net (length t + 2) (search_request q)) = Some cands \<and> cands \<noteq> []"
  have "search_attempts (Suc (Suc (Suc 0))) rt net t q tokens local
     = handle_search_results rt net (t @ replicate 3 (search_request q)) cands tokens local"
    using a
    by (subst search_attempts_empty, simp, subst search_attempts_empty, simp, subst search_attempts_found[where cands = cands])
       (simp_all add: numeral_3_eq_3)
  then show "search_videos_with_retries rt net t q tokens local
            = handle_search_results rt net (t @ replicate 3 (search_request q)) cands tokens local"
    by (simp add: search_videos_with_retries_def numeral_3_eq_3)
next
  assume a: "reply_candidates (net (length t) (search_request q)) = Some []
        \<and> reply_candidates (net (length t + 1) (search_request q)) = Some []
        \<and> reply_candidates (net (length t + 2) (search_request q)) = Some []"
  have "search_attempts (Suc (Suc (Suc 0))) rt net t q tokens local
     = (Fail (''No search results for query '' @ [CHR 0x27] @ q @ [CHR 0x27] @ '' after retries''),
               t @ replicate 3 (search_request q))"
    using a
    by (subst search_attempts_empty, simp, subst search_attempts_empty, simp, subst search_attempts_empty)
       (simp_all add: numeral_3_eq_3)
  then show "search_videos_with_retries rt net t q tokens local
            = (Fail (''No search results for query '' @ [CHR 0x27] @ q @ [CHR 0x27] @ '' after retries''),
               t @ replicate 3 (search_request q))"
    by (simp add: search_videos_with_retries_def numeral_3_eq_3)
qed

theorem retry_loop_witness:
  "reply_candidates (example_net 0 (search_request ''alpha'')) = Some []
   \<and> reply_candidates (example_net 1 (search_request ''alpha'')) = Some []
   \<and> reply_candidates (example_net 2 (search_request ''alpha'')) = Some example_candidates
   \<and> example_candidates \<noteq> []
   \<and> search_videos_with_retries example_runtime example_net [] ''alpha'' [''alpha''] [Fin 120]
       = handle_search_results example_runtime example_net (replicate 3 (search_request ''alpha''))
           example_candidates [''alpha''] [Fin 120]
   \<and> reply_candidates (empty_net 0 (search_request ''alpha'')) = Some []
   \<and> reply_candidates (empty_net 1 (search_request ''alpha'')) = Some []
   \<and> reply_candidates (empty_net 2 (search_request ''alpha'')) = Some []
   \<and> search_videos_with_retries example_runtime empty_net [] ''alpha'' [''alpha''] [Fin 120]
       = (Fail (''No search results for query '' @ [CHR 0x27] @ ''alpha'' @ [CHR 0x27] @ '' after retries''),
          replicate 3 (search_request ''alpha''))"
proof -
  have a: "reply_candidates (example_net 0 (search_request ''alpha'')) = Some []"
    "reply_candidates (example_net 1 (search_request ''alpha'')) = Some []"
    "reply_candidates (example_net 2 (search_request ''alpha'')) = Some example_candidates"
    "example_candidates \<noteq> []"
    by code_simp+
  have b: "reply_candidates (empty_net 0 (search_request ''alpha'')) = Some []"
    "reply_candidates (empty_net 1 (search_request ''alpha'')) = Some []"
    "reply_candidates (empty_net 2 (search_request ''alpha'')) = Some []"
    by code_simp+
  show ?thesis
    using a b
      retry_loop[where net = example_net and t = "[]" and q = "''alpha''" and cands = example_candidates
        and rt = example_runtime and tokens = "[''alpha'']" and local = "[Fin 120]"]
      retry_loop[where net = empty_net and t = "[]" and q = "''alpha''" and cands = example_candidates
        and rt = example_runtime and tokens = "[''alpha'']" and local = "[Fin 120]"]
    by (simp add: numeral_2_eq_2)
qed

lemma score_candidates_snd:
  "score_candidates rt q local details = Inr scored \<Longrightarrow> map snd scored = details"
  by (induction details arbitrary: scored) (auto split: sum.splits)

lemma score_candidates_score:
  "score_candidates rt q local details = Inr scored \<Longrightarrow>
     \<forall>c\<in>set scored. calculate_score rt (snd c) q local = Inr (fst c)"
  by (induction details arbitrary: scored) (auto split: sum.splits)

lemma sort_by_score_set [simp]: "set (sort_by_score scored) = set scored"
  by (simp add: sort_by_score_def)

lemma sort_by_score_length [simp]: "length (sort_by_score scored) = length scored"
  by (simp add: sort_by_score_def)

lemma sort_by_score_sorted: "sorted (map (\<lambda>c. - fst c) (sort_by_score scored))"
proof -
  have "(\<lambda>(score, video). - score) = (\<lambda>c::real \<times> dict. - fst c)" by auto
  then show ?thesis unfolding sort_by_score_def by (metis sorted_sort_key)
qed

lemma sort_by_score_hd_max:
  assumes "i < length (sort_by_score scored)"
  shows "fst (sort_by_score scored ! i) \<le> fst (hd (sort_by_score scored))"
proof -
  let ?r = "sort_by_score scored"
  have "sorted (map (\<lambda>c. - fst c) ?r)" by (rule sort_by_score_sorted)
  then have "map (\<lambda>c. - fst c) ?r ! 0 \<le> map (\<lambda>c. - fst c) ?r ! i"
    using assms by (intro sorted_nth_mono) auto
  moreover have "0 < length ?r" using assms by linarith
  ultimately have "- fst (?r ! 0) \<le> - fst (?r ! i)"
    using assms by (simp only: nth_map)
  moreover have "hd ?r = ?r ! 0"
  proof (rule hd_conv_nth)
    show "?r \<noteq> []"
    proof
      assume "?r = []"
      then have "length ?r = 0" by (simp only: list.size)
      with assms show False by linarith
    qed
  qed
  ultimately show ?thesis by simp
qed

lemma calculate_score_duration:
  "calculate_score rt v q local = Inr s \<Longrightarrow> \<exists>d. extract_candidate_duration rt v = Inr d"
  by (cases "extract_candidate_duration rt v")
     (auto simp: calculate_score_def Let_def split: sum.splits)

lemma score_candidates_durations:
  assumes "score_candidates rt q local details = Inr scored" "c \<in> set scored"
  shows "\<exists>d. extract_candidate_duration rt (snd c) = Inr d"
  using score_candidates_score[OF assms(1)] assms(2) calculate_score_duration by blast

lemma first_match_find:
  "\<forall>c\<in>set ranked. \<exists>d. extract_candidate_duration rt (snd c) = Inr d \<Longrightarrow>
     first_match rt local ranked = Inr (find (\<lambda>c. passes rt local (snd c)) ranked)"
  by (induction ranked) (auto simp: passes_def)

lemma decide_gate:
  assumes "local \<noteq> []" "ranked \<noteq> []" "\<not> passes rt local (snd (hd ranked))"
    and "\<forall>c\<in>set ranked. \<exists>d. extract_candidate_duration rt (snd c) = Inr d"
  shows "decide rt cands local ranked =
           (case find (\<lambda>c. passes rt local (snd c)) ranked of
              Some c \<Rightarrow> build_scene rt (snd c)
            | None \<Rightarrow> build_selection_options rt (map (\<lambda>c. JDict (snd c)) (take 3 (sort_by_score ranked))))"
proof -
  obtain best_score best_video rest where r: "ranked = (best_score, best_video) # rest"
    using assms(2) by (cases ranked) auto
  obtain d where d: "extract_candidate_duration rt best_video = Inr d"
    using assms(4) r by auto
  have nm: "\<not> duration_matches d local"
    using assms(3) r d by (simp add: passes_def)
  have g: "(\<lambda>(s, v). JDict v) = (\<lambda>c::real \<times> dict. JDict (snd c))" by auto
  have "decide rt cands local ranked =
          (case first_match rt local ranked of
             Inl e \<Rightarrow> Inl e
           | Inr (Some (score, video)) \<Rightarrow> build_scene rt video
           | Inr None \<Rightarrow>
               build_selection_options rt (map (\<lambda>c. JDict (snd c)) (take 3 (sort_by_score ranked))))"
    unfolding decide_def r using d nm assms(1)
    by (auto simp: Let_def g simp del: first_match.simps split: sum.splits option.splits)
  then show ?thesis
    unfolding first_match_find[OF assms(4)] by (simp split: option.splits prod.splits)
qed

lemma handle_search_results_scored:
  assumes "fetch_details rt net t (candidates_to_process candidates tokens) = (Ok details, t')"
    and "score_candidates rt (join_spaces tokens) local details = Inr scored"
  shows "handle_search_results rt net t candidates tokens local
           = (lift (decide rt candidates local (sort_by_score scored)), t')"
  using assms by (simp add: handle_search_results_def Let_def)

text \<open>
  C1. With local durations known, when the highest-scored candidate fails the duration
  check and some ranked candidate passes it, the result is the scene built from the first
  candidate in rank order that passes; that candidate is not the highest-scored one and
  its score is not higher.
\<close>

theorem duration_gate_prefers_match:
  assumes "local \<noteq> []"
    and "fetch_details rt net t (candidates_to_process candidates tokens) = (Ok details, t')"
    and "score_candidates rt (join_spaces tokens) local details = Inr scored"
    and "ranked = sort_by_score scored"
    and "\<not> passes rt local (snd (hd ranked))"
    and "\<exists>c\<in>set ranked. passes rt local (snd c)"
  shows "\<exists>i. 0 < i \<and> i < length ranked
            \<and> passes rt local (snd (ranked ! i))
            \<and> (\<forall>j<i. \<not> passes rt local (snd (ranked ! j)))
            \<and> fst (ranked ! i) \<le> fst (hd ranked)
            \<and> snd (ranked ! i) \<noteq> snd (hd ranked)
            \<and> handle_search_results rt net t candidates tokens local
                = (lift (build_scene rt (snd (ranked ! i))), t')"
proof -
  from assms(6) have ne: "ranked \<noteq> []" by auto
  have dur: "\<forall>c\<in>set ranked. \<exists>d. extract_candidate_duration rt (snd c) = Inr d"
    using score_candidates_durations[OF assms(3)] assms(4) by simp
  from assms(6) obtain c where c: "find (\<lambda>c. passes rt local (snd c)) ranked = Some c"
    by (cases "find (\<lambda>c. passes rt local (snd c)) ranked") (auto simp: find_None_iff)
  then obtain i where i: "i < length ranked" "passes rt local (snd (ranked ! i))" "c = ranked ! i"
    "\<forall>j<i. \<not> passes rt local (snd (ranked ! j))"
    unfolding find_Some_iff by blast
  have "i \<noteq> 0"
  proof
    assume "i = 0"
    then have "passes rt local (snd (hd ranked))" using i(2) ne by (simp add: hd_conv_nth)
    then show False using assms(5) by simp
  qed
  then have "0 < i" by simp
  moreover have "fst (ranked ! i) \<le> fst (hd ranked)"
    using sort_by_score_hd_max[of i scored] i(1) assms(4) by simp
  moreover have "snd (ranked ! i) \<noteq> snd (hd ranked)"
    using i(2) assms(5) by auto
  moreover have "handle_search_results rt net t candidates tokens local
                = (lift (build_scene rt (snd (ranked ! i))), t')"
    using handle_search_results_scored[OF assms(2,3)]
      decide_gate[OF assms(1) ne assms(5) dur, of candidates] c i(3) assms(4)
    by simp
  ultimately show ?thesis using i by blast
qed

theorem duration_gate_prefers_match_witness:
  "fetch_details example_runtime example_net [] (candidates_to_process example_candidates [''alpha''])
     = (Ok [example_record ''a'' ''alpha'' 300, example_record ''b'' ''beta'' 125], example_trace)
   \<and> score_candidates example_runtime (join_spaces [''alpha'']) [Fin 120]
        [example_record ''a'' ''alpha'' 300, example_record ''b'' ''beta'' 125]
     = Inr [(100, example_record ''a'' ''alpha'' 300), (50, example_record ''b'' ''beta'' 125)]
   \<and> sort_by_score [(100, example_record ''a'' ''alpha'' 300), (50, example_record ''b'' ''beta'' 125)]
     = [(100, example_record ''a'' ''alpha'' 300), (50, example_record ''b'' ''beta'' 125)]
   \<and> \<not> passes example_runtime [Fin 120] (example_record ''a'' ''alpha'' 300)
   \<and> passes example_runtime [Fin 120] (example_record ''b'' ''beta'' 125)
   \<and> handle_search_results example_runtime example_net [] example_candidates [''alpha''] [Fin 120]
     = (lift (build_scene example_runtime (example_record ''b'' ''beta'' 125)), example_trace)"
proof -
  let ?a = "example_record ''a'' ''alpha'' 300" and ?b = "example_record ''b'' ''beta'' 125"
  let ?ranked = "[(100::real, ?a), (50, ?b)]"
  have f: "fetch_details example_runtime example_net [] (candidates_to_process example_candidates [''alpha''])
     = (Ok [?a, ?b], example_trace)"
    by code_simp
  have s: "score_candidates example_runtime (join_spaces [''alpha'']) [Fin 120] [?a, ?b] = Inr ?ranked"
    by code_simp
  have r: "?ranked = sort_by_score ?ranked"
    by code_simp
  have p: "\<not> passes example_runtime [Fin 120] ?a" "passes example_runtime [Fin 120] ?b"
    by code_simp+
  have "\<exists>i. 0 < i \<and> i < length ?ranked
            \<and> passes example_runtime [Fin 120] (snd (?ranked ! i))
            \<and> (\<forall>j<i. \<not> passes example_runtime [Fin 120] (snd (?ranked ! j)))
            \<and> fst (?ranked ! i) \<le> fst (hd ?ranked)
            \<and> snd (?ranked ! i) \<noteq> snd (hd ?ranked)
            \<and> handle_search_results example_runtime example_net [] example_candidates [''alpha''] [Fin 120]
                = (lift (build_scene example_runtime (snd (?ranked ! i))), example_trace)"
    by (rule duration_gate_prefers_match[OF _ f s r]) (use p in simp_all)
  then obtain i where i: "0 < i" "i < length ?ranked"
    "handle_search_results example_runtime example_net [] example_candidates [''alpha''] [Fin 120]
                = (lift (build_scene example_runtime (snd (?ranked ! i))), example_trace)"
    by blast
  from i(1,2) have "i = 1" by simp
  with i(3) have "handle_search_results example_runtime example_net [] example_candidates [''alpha''] [Fin 120]
                = (lift (build_scene example_runtime ?b), example_trace)"
    by simp
  with f s r p show ?thesis by simp
qed

lemma fetch_details_nonempty:
  "fetch_details rt net t cs = (Ok details, t') \<Longrightarrow> details \<noteq> []"
  by (auto simp: fetch_details_def split: prod.splits res.splits if_splits)

lemma slugify_plain:
  "plain_field d ''title'' \<Longrightarrow> \<exists>slug. slugify (py_or (get d ''title'') (JStr [])) = Inr slug"
  by (auto simp: plain_field_def slugify_def py_or_def get_def get_default_def split: option.splits json.splits)

lemma pick_image_plain:
  "plain_field d ''thumbnails'' \<Longrightarrow> \<exists>img. pick_image d = Inr img"
  by (auto simp: plain_field_def pick_image_def py_or_def get_def get_default_def Let_def split: option.splits json.splits)

lemma score_candidates_total:
  "list_all shortlist_ready details \<Longrightarrow> \<exists>scored. score_candidates rt q local details = Inr scored"
proof (induction details)
  case Nil
  then show ?case by simp
next
  case (Cons d details)
  then obtain scored where "score_candidates rt q local details = Inr scored" by auto
  moreover obtain s where "calculate_score rt d q local = Inr s"
    using Cons.prems calculate_score_plain[of d rt q local] by (auto simp: shortlist_ready_def)
  ultimately show ?case by simp
qed

lemma selection_options_dicts:
  "selection_options rt (map JDict ds) = Inr options \<Longrightarrow> length options = length ds"
proof (induction ds arbitrary: options)
  case Nil
  then show ?case by simp
next
  case (Cons d ds)
  from Cons.prems obtain rest where "selection_options rt (map JDict ds) = Inr rest" "length options = Suc (length rest)"
    by (auto simp: Let_def split: sum.splits)
  then show ?case using Cons.IH by simp
qed

lemma selection_options_total:
  "list_all shortlist_ready ds \<Longrightarrow> \<exists>options. selection_options rt (map JDict ds) = Inr options"
proof (induction ds)
  case Nil
  then show ?case by simp
next
  case (Cons d ds)
  then obtain rest where "selection_options rt (map JDict ds) = Inr rest" by auto
  moreover obtain slug where "slugify (py_or (get d ''title'') (JStr [])) = Inr slug"
    using Cons.prems slugify_plain[of d] by (auto simp: shortlist_ready_def)
  moreover obtain img where "pick_image d = Inr img"
    using Cons.prems pick_image_plain[of d] by (auto simp: shortlist_ready_def)
  ultimately show ?case by (simp add: Let_def)
qed

lemma build_scene_not_selection:
  "build_scene rt v = Inr scene \<Longrightarrow> scene \<noteq> JDict [(''results'', JList options)]"
  using build_scene_shape[of rt v scene] by auto

text \<open>
  C2. With local durations known, when none of the successfully fetched detail records
  passes the duration check, the resolution never fails and never returns a scene: a
  returned result is \<open>{"results": [...]}\<close> with one entry per top-ranked record, at most 3;
  the only other outcome is an exception raised on a record whose \<open>title\<close> or
  \<open>thumbnails\<close> has the wrong type or whose duration fields hold an integer beyond the
  range of a float.
\<close>

theorem no_match_gives_shortlist:
  assumes "local \<noteq> []"
    and "fetch_details rt net t (candidates_to_process candidates tokens) = (Ok details, t')"
    and "\<forall>v\<in>set details. \<not> passes rt local v"
  shows "(case fst (handle_search_results rt net t candidates tokens local) of
            Ok result \<Rightarrow>
              (\<exists>options. result = JDict [(''results'', JList options)]
                 \<and> length options = min 3 (length details) \<and> length options \<le> 3)
          | Fail m \<Rightarrow> False
          | Raise e \<Rightarrow> \<not> list_all shortlist_ready details)
         \<and> (\<forall>v scene. build_scene rt v = Inr scene
               \<longrightarrow> fst (handle_search_results rt net t candidates tokens local) \<noteq> Ok scene)"
proof -
  let ?h = "fst (handle_search_results rt net t candidates tokens local)"
  have main: "case ?h of
            Ok result \<Rightarrow>
              (\<exists>options. result = JDict [(''results'', JList options)]
                 \<and> length options = min 3 (length details) \<and> length options \<le> 3)
          | Fail m \<Rightarrow> False
          | Raise e \<Rightarrow> \<not> list_all shortlist_ready details"
  proof (cases "score_candidates rt (join_spaces tokens) local details")
    case (Inl e)
    then have "?h = Raise e"
      using assms(2) by (simp add: handle_search_results_def Let_def)
    moreover have "\<not> list_all shortlist_ready details"
      using Inl score_candidates_total[of details rt "join_spaces tokens" local] by auto
    ultimately show ?thesis by simp
  next
    case (Inr scored)
    define ranked where "ranked = sort_by_score scored"
    have snd: "map snd scored = details" using Inr by (rule score_candidates_snd)
    have len: "length ranked = length details"
      using snd unfolding ranked_def by (metis length_map sort_by_score_length)
    have ne: "ranked \<noteq> []" using len fetch_details_nonempty[OF assms(2)] by auto
    have mem: "snd c \<in> set details" if "c \<in> set ranked" for c
      using that snd unfolding ranked_def by auto
    have nopass: "\<not> passes rt local (snd c)" if "c \<in> set ranked" for c
      using mem[OF that] assms(3) by auto
    have dur: "\<forall>c\<in>set ranked. \<exists>d. extract_candidate_duration rt (snd c) = Inr d"
      using score_candidates_durations[OF Inr] by (simp add: ranked_def)
    have top_fails: "\<not> passes rt local (snd (hd ranked))" using nopass[of "hd ranked"] ne by simp
    have "find (\<lambda>c. passes rt local (snd c)) ranked = None"
      unfolding find_None_iff using nopass by blast
    then have d: "decide rt candidates local ranked
               = build_selection_options rt (map (\<lambda>c. JDict (snd c)) (take 3 (sort_by_score ranked)))"
      using decide_gate[OF assms(1) ne top_fails dur, of candidates] by simp
    define top where "top = map snd (take 3 (sort_by_score ranked))"
    have top_map: "map (\<lambda>c. JDict (snd c)) (take 3 (sort_by_score ranked)) = map JDict top"
      by (simp add: top_def)
    have top_len: "length top = min 3 (length details)"
      using len by (simp add: top_def min.commute)
    have top_set: "set top \<subseteq> set details"
    proof
      fix v assume "v \<in> set top"
      then obtain c where "c \<in> set (take 3 (sort_by_score ranked))" "v = snd c"
        by (auto simp: top_def)
      then have "c \<in> set ranked" using set_take_subset[of 3 "sort_by_score ranked"] by auto
      then show "v \<in> set details" using mem \<open>v = snd c\<close> by simp
    qed
    have h: "handle_search_results rt net t candidates tokens local
               = (lift (build_selection_options rt (map JDict top)), t')"
      using handle_search_results_scored[OF assms(2) Inr] d top_map by (simp add: ranked_def)
    show ?thesis
    proof (cases "selection_options rt (map JDict top)")
      case (Inl e)
      have "\<not> list_all shortlist_ready top"
        using Inl selection_options_total[of top rt] by auto
      then have "\<not> list_all shortlist_ready details"
        using top_set by (auto simp: list_all_iff)
      then show ?thesis using h Inl by (simp add: build_selection_options_def lift_def)
    next
      case (Inr options)
      then have "length options = min 3 (length details)"
        using selection_options_dicts[of rt top options] top_len by simp
      then show ?thesis using h Inr by (simp add: build_selection_options_def lift_def)
    qed
  qed
  moreover have "?h \<noteq> Ok scene" if "build_scene rt v = Inr scene" for v scene
  proof
    assume "?h = Ok scene"
    with main obtain options where "scene = JDict [(''results'', JList options)]" by auto
    then show False using build_scene_not_selection[OF that] by simp
  qed
  ultimately show ?thesis by blast
qed

theorem no_match_gives_shortlist_witness:
  "fetch_details example_runtime example_net [] (candidates_to_process example_candidates [''alpha''])
     = (Ok [example_record ''a'' ''alpha'' 300, example_record ''b'' ''beta'' 125], example_trace)
   \<and> \<not> passes example_runtime [Fin 1000] (example_record ''a'' ''alpha'' 300)
   \<and> \<not> passes example_runtime [Fin 1000] (example_record ''b'' ''beta'' 125)
   \<and> (\<exists>options. fst (handle_search_results example_runtime example_net [] example_candidates
                        [''alpha''] [Fin 1000])
          = Ok (JDict [(''results'', JList options)]) \<and> length options = 2)
   \<and> (\<exists>scene. build_scene example_runtime (example_record ''a'' ''alpha'' 300) = Inr scene
          \<and> fst (handle_search_results example_runtime example_net [] example_candidates
                    [''alpha''] [Fin 1000]) \<noteq> Ok scene)
   \<and> fetch_details example_runtime huge_net [] (candidates_to_process [JDict [(''_id'', JStr ''a'')]] [''alpha''])
     = (Ok [huge_record], [Get (watch_url example_runtime (JStr ''a'')) None])
   \<and> \<not> passes example_runtime [Fin 120] huge_record
   \<and> fst (handle_search_results example_runtime huge_net [] [JDict [(''_id'', JStr ''a'')]] [''alpha''] [Fin 120])
     = Raise OverflowError
   \<and> \<not> list_all shortlist_ready [huge_record]"
proof -
  let ?a = "example_record ''a'' ''alpha'' 300" and ?b = "example_record ''b'' ''beta'' 125"
  have f: "fetch_details example_runtime example_net [] (candidates_to_process example_candidates [''alpha''])
     = (Ok [?a, ?b], example_trace)"
    by code_simp
  have p: "\<not> passes example_runtime [Fin 1000] ?a" "\<not> passes example_runtime [Fin 1000] ?b"
    by code_simp+
  obtain scene where sc: "build_scene example_runtime ?a = Inr scene"
    using build_scene_returns[of ?a example_runtime]
    by (auto simp: plain_field_def example_record_def)
  have ns: "fst (handle_search_results example_runtime example_net [] example_candidates
                    [''alpha''] [Fin 1000]) \<noteq> Ok scene"
    using no_match_gives_shortlist[OF _ f, of "[Fin 1000]"] p sc by simp
  have ready: "list_all shortlist_ready [?a, ?b]"
    by code_simp
  have "case fst (handle_search_results example_runtime example_net [] example_candidates [''alpha''] [Fin 1000]) of
            Ok result \<Rightarrow>
              (\<exists>options. result = JDict [(''results'', JList options)]
                 \<and> length options = min 3 (length [?a, ?b]) \<and> length options \<le> 3)
          | Fail m \<Rightarrow> False
          | Raise e \<Rightarrow> \<not> list_all shortlist_ready [?a, ?b]"
    using no_match_gives_shortlist[OF _ f, of "[Fin 1000]"] p by simp
  with ready have "\<exists>options. fst (handle_search_results example_runtime example_net [] example_candidates
                        [''alpha''] [Fin 1000])
          = Ok (JDict [(''results'', JList options)]) \<and> length options = 2"
    by (auto split: res.splits)
  note shortlist = this
  have hf: "fetch_details example_runtime huge_net [] (candidates_to_process [JDict [(''_id'', JStr ''a'')]] [''alpha''])
     = (Ok [huge_record], [Get (watch_url example_runtime (JStr ''a'')) None])"
    by code_simp
  have hp: "\<not> passes example_runtime [Fin 120] huge_record"
    by code_simp
  have hr: "fst (handle_search_results example_runtime huge_net [] [JDict [(''_id'', JStr ''a'')]] [''alpha''] [Fin 120])
     = Raise OverflowError"
    by code_simp
  have "case fst (handle_search_results example_runtime huge_net [] [JDict [(''_id'', JStr ''a'')]] [''alpha''] [Fin 120]) of
            Ok result \<Rightarrow>
              (\<exists>options. result = JDict [(''results'', JList options)]
                 \<and> length options = min 3 (length [huge_record]) \<and> length options \<le> 3)
          | Fail m \<Rightarrow> False
          | Raise e \<Rightarrow> \<not> list_all shortlist_ready [huge_record]"
    using no_match_gives_shortlist[OF _ hf, of "[Fin 120]"] hp by simp
  then have hn: "\<not> list_all shortlist_ready [huge_record]"
    unfolding hr by simp
  from f p sc ns shortlist hf hp hr hn show ?thesis by blast
qed

lemma fatal_transport_refl: "fatal_transport net t (r, t)"
  by (simp add: fatal_transport_def)

lemma fatal_transport_trans:
  assumes "fatal_transport net t (r1, t1)" "\<forall>m. r1 \<noteq> Fail m" "fatal_transport net t1 out"
  shows "fatal_transport net t out"
proof -
  from assms(1) obtain new1 where n1: "t1 = t @ new1"
    "\<forall>i e. i < length new1 \<and> net (length t + i) (new1 ! i) = TransportError e \<longrightarrow> transport_failure r1 e"
    by (auto simp: fatal_transport_def)
  from assms(3) obtain new2 where n2: "snd out = t1 @ new2"
    "\<forall>i e. i < length new2 \<and> net (length t1 + i) (new2 ! i) = TransportError e \<longrightarrow> transport_failure (fst out) e"
    by (auto simp: fatal_transport_def)
  have none: "net (length t + i) (new1 ! i) \<noteq> TransportError e" if "i < length new1" for i e
    using n1(2) that assms(2) by (auto simp: transport_failure_def)
  have "\<forall>i e. i < length (new1 @ new2) \<and> net (length t + i) ((new1 @ new2) ! i) = TransportError e
          \<longrightarrow> transport_failure (fst out) e"
  proof (intro allI impI)
    fix i e
    assume a: "i < length (new1 @ new2) \<and> net (length t + i) ((new1 @ new2) ! i) = TransportError e"
    show "transport_failure (fst out) e"
    proof (cases "i < length new1")
      case True
      then show ?thesis using a none[of i e] by (simp add: nth_append)
    next
      case False
      then have "i - length new1 < length new2" using a by auto
      moreover have "net (length t1 + (i - length new1)) (new2 ! (i - length new1)) = TransportError e"
        using a False n1(1) by (simp add: nth_append)
      ultimately show ?thesis using n2(2) by blast
    qed
  qed
  then show ?thesis
    unfolding fatal_transport_def using n1(1) n2(1) by (intro exI[of _ "new1 @ new2"]) simp
qed

lemma fatal_transport_get_json: "fatal_transport net t (get_json net t url context params)"
  unfolding fatal_transport_def get_json_def Let_def transport_failure_def
  by (intro exI[of _ "[Get url params]"]) (auto split: reply.splits)

lemma fatal_transport_fail:
  assumes "fatal_transport net t (Fail m, t')"
  shows "fatal_transport net t (Fail m :: 'b res, t')"
  using assms by (simp add: fatal_transport_def transport_failure_def)

lemma fatal_transport_other:
  assumes "fatal_transport net t (r, t')" "\<forall>m. r \<noteq> Fail m"
  shows "fatal_transport net t (r', t')"
proof -
  have "fatal_transport net t' (r', t')" by (rule fatal_transport_refl)
  with assms show ?thesis by (rule fatal_transport_trans)
qed

lemma fatal_transport_get_video_details:
  "fatal_transport net t (get_video_details rt net t v)"
proof -
  obtain r t' where g: "get_json net t (watch_url rt v) ''get_watch_page'' None = (r, t')" by force
  then have f: "fatal_transport net t (r, t')" using fatal_transport_get_json[of net t] by metis
  show ?thesis
  proof (cases r)
    case (Ok data)
    then have "fatal_transport net t (x, t')" for x :: "details res"
      using f fatal_transport_other by blast
    then show ?thesis using g Ok
      by (auto simp: get_video_details_def get_watch_page_def split: sum.splits bool.splits json.splits)
  next
    case (Fail m)
    then show ?thesis using g f fatal_transport_fail
      by (auto simp: get_video_details_def get_watch_page_def)
  next
    case (Raise e)
    then have "fatal_transport net t (x, t')" for x :: "details res"
      using f fatal_transport_other by blast
    then show ?thesis using g Raise
      by (auto simp: get_video_details_def get_watch_page_def)
  qed
qed

lemma fatal_transport_cases:
  assumes "fatal_transport net t (r, t')"
    and "\<And>m. r = Fail m \<Longrightarrow> out = (Fail m, t')"
    and "(\<forall>m. r \<noteq> Fail m) \<Longrightarrow> fatal_transport net t' out"
  shows "fatal_transport net t out"
proof (cases "\<exists>m. r = Fail m")
  case True
  then obtain m where "r = Fail m" by blast
  then show ?thesis using assms(1,2) fatal_transport_fail by metis
next
  case False
  then show ?thesis using assms(1,3) fatal_transport_trans by blast
qed

lemma fatal_transport_fetch_candidate:
  "fatal_transport net t (fetch_candidate_details rt net t c)"
proof (cases c)
  case (JDict d)
  show ?thesis
  proof (cases "truthy (get_video_id d)")
    case True
    obtain r t' where g: "get_video_details rt net t (get_video_id d) = (r, t')" by force
    then have f: "fatal_transport net t (r, t')"
      using fatal_transport_get_video_details[of net t rt "get_video_id d"] by simp
    show ?thesis
    proof (rule fatal_transport_cases[OF f])
      fix m assume "r = Fail m"
      then show "fetch_candidate_details rt net t c = (Fail m, t')"
        using JDict True g by (simp add: fetch_candidate_details_def Let_def)
    next
      assume "\<forall>m. r \<noteq> Fail m"
      then have "snd (fetch_candidate_details rt net t c) = t'"
        using JDict True g by (auto simp: fetch_candidate_details_def Let_def split: res.splits details.splits)
      then show "fatal_transport net t' (fetch_candidate_details rt net t c)"
        using fatal_transport_refl[of net t'] by (metis prod.collapse)
    qed
  qed (use JDict in \<open>simp add: fetch_candidate_details_def fatal_transport_refl\<close>)
qed (simp_all add: fetch_candidate_details_def fatal_transport_refl)

lemma fatal_transport_fetch_loop:
  "fatal_transport net t (fetch_loop rt net t cs acc)"
proof (induction cs arbitrary: t acc)
  case Nil
  then show ?case by (simp add: fatal_transport_refl)
next
  case (Cons c cs)
  obtain r t1 where g: "fetch_candidate_details rt net t c = (r, t1)" by force
  then have f: "fatal_transport net t (r, t1)"
    using fatal_transport_fetch_candidate[of net t rt c] by simp
  show ?case
  proof (rule fatal_transport_cases[OF f])
    fix m assume "r = Fail m"
    then show "fetch_loop rt net t (c # cs) acc = (Fail m, t1)" using g by simp
  next
    assume "\<forall>m. r \<noteq> Fail m"
    then show "fatal_transport net t1 (fetch_loop rt net t (c # cs) acc)"
      using g Cons.IH[of t1] fatal_transport_refl[of net t1]
      by (auto split: res.splits option.splits json.splits)
  qed
qed

lemma fatal_transport_fetch_details:
  "fatal_transport net t (fetch_details rt net t cs)"
proof -
  obtain r t1 where g: "fetch_loop rt net t cs [] = (r, t1)" by force
  then have f: "fatal_transport net t (r, t1)"
    using fatal_transport_fetch_loop[of net t rt cs "[]"] by simp
  show ?thesis
  proof (rule fatal_transport_cases[OF f])
    fix m assume "r = Fail m"
    then show "fetch_details rt net t cs = (Fail m, t1)" using g by (simp add: fetch_details_def)
  next
    assume "\<forall>m. r \<noteq> Fail m"
    then have "snd (fetch_details rt net t cs) = t1"
      using g by (auto simp: fetch_details_def split: res.splits)
    then show "fatal_transport net t1 (fetch_details rt net t cs)"
      using fatal_transport_refl[of net t1] by (metis prod.collapse)
  qed
qed

lemma fatal_transport_handle:
  "fatal_transport net t (handle_search_results rt net t cands tokens local)"
proof -
  obtain r t1 where g: "fetch_details rt net t (candidates_to_process cands tokens) = (r, t1)" by force
  then have f: "fatal_transport net t (r, t1)"
    using fatal_transport_fetch_details[of net t rt] by metis
  show ?thesis
  proof (rule fatal_transport_cases[OF f])
    fix m assume "r = Fail m"
    then show "handle_search_results rt net t cands tokens local = (Fail m, t1)"
      using g by (simp add: handle_search_results_def)
  next
    assume "\<forall>m. r \<noteq> Fail m"
    then have "snd (handle_search_results rt net t cands tokens local) = t1"
      using g by (auto simp: handle_search_results_def Let_def split: res.splits sum.splits)
    then show "fatal_transport net t1 (handle_search_results rt net t cands tokens local)"
      using fatal_transport_refl[of net t1] by (metis prod.collapse)
  qed
qed

lemma fatal_transport_search_attempts:
  "fatal_transport net t (search_attempts n rt net t q tokens local)"
proof (induction n arbitrary: t)
  case 0
  then show ?case by (simp add: fatal_transport_refl)
next
  case (Suc n)
  obtain r t1 where g: "search_videos net t q = (r, t1)" by force
  then have f: "fatal_transport net t (r, t1)"
    using fatal_transport_get_json[of net t] by (metis search_videos_def)
  show ?case
  proof (rule fatal_transport_cases[OF f])
    fix m assume "r = Fail m"
    then show "search_attempts (Suc n) rt net t q tokens local = (Fail m, t1)" using g by simp
  next
    assume "\<forall>m. r \<noteq> Fail m"
    then show "fatal_transport net t1 (search_attempts (Suc n) rt net t q tokens local)"
      using g Suc.IH[of t1] fatal_transport_refl[of net t1] fatal_transport_handle[of net t1]
      by (auto simp: Let_def split: res.splits sum.splits bool.splits json.splits)
  qed
qed

lemma fatal_transport_get_video_by_id:
  "fatal_transport net t (get_video_by_id rt net t v)"
proof -
  obtain r t1 where g: "get_video_details rt net t v = (r, t1)" by force
  then have f: "fatal_transport net t (r, t1)"
    using fatal_transport_get_video_details[of net t rt v] by simp
  show ?thesis
  proof (rule fatal_transport_cases[OF f])
    fix m assume "r = Fail m"
    then show "get_video_by_id rt net t v = (Fail m, t1)" using g by (simp add: get_video_by_id_def)
  next
    assume "\<forall>m. r \<noteq> Fail m"
    then have "snd (get_video_by_id rt net t v) = t1"
      using g by (auto simp: get_video_by_id_def split: res.splits details.splits)
    then show "fatal_transport net t1 (get_video_by_id rt net t v)"
      using fatal_transport_refl[of net t1] by (metis prod.collapse)
  qed
qed

lemma fatal_transport_retries:
  "fatal_transport net t (search_videos_with_retries rt net t q tokens local)"
  unfolding search_videos_with_retries_def by (rule fatal_transport_search_attempts)

lemma fatal_transport_scene_by_url:
  "fatal_transport net t (scene_by_url rt net t params)"
  by (simp add: scene_by_url_def Let_def fatal_transport_get_video_by_id fatal_transport_retries
      fatal_transport_refl split: sum.splits option.splits)

lemma fatal_transport_scene_by_fragment:
  "fatal_transport net t (scene_by_fragment rt net t params)"
  by (simp add: scene_by_fragment_def Let_def fatal_transport_get_video_by_id fatal_transport_retries
      fatal_transport_refl split: sum.splits option.splits)

lemma fatal_transport_dispatch:
  "fatal_transport net [] (dispatch rt net call)"
  by (simp add: dispatch_def fatal_transport_scene_by_url fatal_transport_scene_by_fragment
      fatal_transport_refl split: list.splits stdin_input.splits)

lemma search_attempts_non_json:
  assumes "net (length t) (search_request q) = NonJson status"
  shows "search_attempts (Suc n) rt net t q tokens local
           = (Ok (JDict [(''error'', JStr ''search_videos: non-JSON response''), (''status'', JInt status)]),
              t @ [search_request q])"
  using assms
  by (simp add: search_videos_def get_json_def Let_def search_request_def error_in_def)

lemma search_attempts_error_body:
  assumes "net (length t) (search_request q) = Body data" "error_in data = Inr True"
  shows "search_attempts (Suc n) rt net t q tokens local = (Ok data, t @ [search_request q])"
  using assms
  by (simp add: search_videos_def get_json_def Let_def search_request_def)

lemma attempts_empty_iff:
  "attempts_empty net t q k
     \<longleftrightarrow> (\<forall>j<k. reply_candidates (net (length t + j) (search_request q)) = Some [])"
  by (auto simp: attempts_empty_def list_all_iff)

lemma search_attempts_skip:
  assumes "attempts_empty net t q k"
  shows "search_attempts (k + n) rt net t q tokens local
           = search_attempts n rt net (t @ replicate k (search_request q)) q tokens local"
  using assms
proof (induction k arbitrary: t)
  case 0
  show ?case by simp
next
  case (Suc k)
  let ?t1 = "t @ [search_request q]"
  have first: "reply_candidates (net (length t) (search_request q)) = Some []"
    using Suc.prems attempts_empty_iff[of net t q "Suc k"] by force
  have "reply_candidates (net (length ?t1 + j) (search_request q)) = Some []" if "j < k" for j
  proof -
    have "Suc j < Suc k" using that by simp
    then have "reply_candidates (net (length t + Suc j) (search_request q)) = Some []"
      using Suc.prems attempts_empty_iff[of net t q "Suc k"] by blast
    then show ?thesis by simp
  qed
  then have rest: "attempts_empty net ?t1 q k"
    using attempts_empty_iff[of net ?t1 q k] by blast
  have "search_attempts (Suc k + n) rt net t q tokens local
          = search_attempts (k + n) rt net ?t1 q tokens local"
    using first search_attempts_empty[where net = net and t = t and q = q and n = "k + n"] by simp
  also have "\<dots> = search_attempts n rt net (?t1 @ replicate k (search_request q)) q tokens local"
    by (rule Suc.IH[OF rest])
  also have "?t1 @ replicate k (search_request q) = t @ replicate (Suc k) (search_request q)"
    by (simp add: replicate_app_Cons_same)
  finally show ?case .
qed

lemma retries_split:
  assumes "k < 3"
  shows "search_videos_with_retries rt net t q tokens local
           = search_attempts (k + Suc (2 - k)) rt net t q tokens local"
proof -
  have "k + Suc (2 - k) = Suc (Suc (Suc 0))" using assms by simp
  then show ?thesis by (simp only: search_videos_with_retries_def numeral_3_eq_3)
qed

lemma retries_non_json:
  assumes "k < 3" "attempts_empty net t q k"
    and "net (length t + k) (search_request q) = NonJson status"
  shows "search_videos_with_retries rt net t q tokens local
           = (Ok (JDict [(''error'', JStr ''search_videos: non-JSON response''), (''status'', JInt status)]),
              t @ replicate (Suc k) (search_request q))"
proof -
  let ?tk = "t @ replicate k (search_request q)"
  have "net (length ?tk) (search_request q) = NonJson status" using assms(3) by simp
  then have "search_attempts (Suc (2 - k)) rt net ?tk q tokens local
           = (Ok (JDict [(''error'', JStr ''search_videos: non-JSON response''), (''status'', JInt status)]),
              ?tk @ [search_request q])"
    by (rule search_attempts_non_json)
  moreover have "?tk @ [search_request q] = t @ replicate (Suc k) (search_request q)"
    by (simp add: replicate_append_same)
  ultimately show ?thesis
    unfolding retries_split[OF assms(1)] search_attempts_skip[OF assms(2)] by simp
qed

lemma retries_error_body:
  assumes "k < 3" "attempts_empty net t q k"
    and "net (length t + k) (search_request q) = Body data" "error_in data = Inr True"
  shows "search_videos_with_retries rt net t q tokens local
           = (Ok data, t @ replicate (Suc k) (search_request q))"
proof -
  let ?tk = "t @ replicate k (search_request q)"
  have "net (length ?tk) (search_request q) = Body data" using assms(3) by simp
  then have "search_attempts (Suc (2 - k)) rt net ?tk q tokens local = (Ok data, ?tk @ [search_request q])"
    using assms(4) by (rule search_attempts_error_body)
  moreover have "?tk @ [search_request q] = t @ replicate (Suc k) (search_request q)"
    by (simp add: replicate_append_same)
  ultimately show ?thesis
    unfolding retries_split[OF assms(1)] search_attempts_skip[OF assms(2)] by simp
qed

lemma get_video_by_id_non_json:
  assumes "net (length t) (Get (watch_url rt v) None) = NonJson status"
  shows "fst (get_video_by_id rt net t v)
           = Ok (JDict [(''error'', JStr ''get_watch_page: non-JSON response''), (''status'', JInt status)])"
  using assms
  by (simp add: get_video_by_id_def get_video_details_def get_watch_page_def get_json_def Let_def
      error_in_def)

lemma get_video_by_id_error_body:
  assumes "net (length t) (Get (watch_url rt v) None) = Body data" "error_in data = Inr True"
  shows "fst (get_video_by_id rt net t v) = Ok data"
  using assms
  by (simp add: get_video_by_id_def get_video_details_def get_watch_page_def get_json_def Let_def)

lemma dispatch_by_search:
  assumes "route_of rt call = Some (BySearch q tokens local)"
  shows "dispatch rt net call = search_videos_with_retries rt net [] q tokens local"
proof -
  obtain calledFunction rest params where c: "args call = calledFunction # rest" "stdin call = Parsed params"
    using assms by (auto simp: route_of_def split: list.splits stdin_input.splits)
  obtain durations where d: "extract_local_durations rt params = Inr durations"
    using assms c by (auto simp: route_of_def split: sum.splits)
  show ?thesis
  proof (cases "calledFunction = ''sceneByURL''")
    case True
    then show ?thesis using assms c d
      by (auto simp: route_of_def dispatch_def scene_by_url_def Let_def
          split: sum.splits option.splits if_splits)
  next
    case False
    then have "calledFunction = ''sceneByFragment''"
      using assms c d by (auto simp: route_of_def split: if_splits)
    then show ?thesis using assms c d
      by (auto simp: route_of_def dispatch_def scene_by_fragment_def Let_def
          split: sum.splits option.splits if_splits)
  qed
qed

lemma dispatch_by_id:
  assumes "route_of rt call = Some (ById scene_id)"
  shows "dispatch rt net call = get_video_by_id rt net [] (JStr scene_id)"
proof -
  obtain calledFunction rest params where c: "args call = calledFunction # rest" "stdin call = Parsed params"
    using assms by (auto simp: route_of_def split: list.splits stdin_input.splits)
  obtain durations where d: "extract_local_durations rt params = Inr durations"
    using assms c by (auto simp: route_of_def split: sum.splits)
  show ?thesis
  proof (cases "calledFunction = ''sceneByURL''")
    case True
    then show ?thesis using assms c d
      by (auto simp: route_of_def dispatch_def scene_by_url_def Let_def
          split: sum.splits option.splits if_splits)
  next
    case False
    then have "calledFunction = ''sceneByFragment''"
      using assms c d by (auto simp: route_of_def split: if_splits)
    then show ?thesis using assms c d
      by (auto simp: route_of_def dispatch_def scene_by_fragment_def Let_def
          split: sum.splits option.splits if_splits)
  qed
qed

lemma jprint_error_object:
  "\<exists>m. jprint rt (error_object message) = error_object m"
  by (cases "encodable rt (error_object message)") (auto simp: jprint_def)

lemma main_exit_cases:
  "(exit_code (main rt net call) = 0
      \<and> (\<exists>result. fst (dispatch rt net call) = Ok result \<and> stdout (main rt net call) = jprint rt result))
   \<or> (exit_code (main rt net call) = 1 \<and> (\<exists>m. stdout (main rt net call) = error_object m)
        \<and> (\<forall>v. fst (dispatch rt net call) \<noteq> Ok v))"
  by (cases "fst (dispatch rt net call)") (simp_all add: main_def jprint_error_object)

lemma main_ok:
  "fst (dispatch rt net call) = Ok result \<Longrightarrow> main rt net call = \<lparr>stdout = jprint rt result, exit_code = 0\<rparr>"
  by (simp add: main_def)

lemma main_fail:
  "fst (dispatch rt net call) = Fail m
     \<Longrightarrow> main rt net call = \<lparr>stdout = jprint rt (error_object m), exit_code = 1\<rparr>"
  by (simp add: main_def)

lemma main_transport:
  assumes "i < length (snd (dispatch rt net call))"
    and "net i (snd (dispatch rt net call) ! i) = TransportError e"
  shows "exit_code (main rt net call) = 1
         \<and> (\<exists>context. stdout (main rt net call)
                = jprint rt (error_object (context @ '': request failed: '' @ e)))"
proof -
  have "fatal_transport net [] (dispatch rt net call)" by (rule fatal_transport_dispatch)
  then have "transport_failure (fst (dispatch rt net call)) e"
    using assms unfolding fatal_transport_def by auto
  then obtain c where "fst (dispatch rt net call) = Fail (c @ '': request failed: '' @ e)"
    by (auto simp: transport_failure_def)
  then show ?thesis using main_fail by fastforce
qed

text \<open>
  C4 (amended). Every invocation ends with exit status 0 or 1 and one JSON object on
  standard output; the object is the one handed to \<open>jprint\<close>, or
  \<open>{"error": "PMVHaven fatal print error"}\<close> when that one cannot be encoded. Status 1
  always comes with a failure object \<open>{"error": message}\<close>, and every \<open>fail\<close> and every
  exception ends this way: a missing or unknown method, blank, invalid or unreadable
  input, and a transport failure of any request made. With status 0 the object handed
  to \<open>jprint\<close> is the value the pipeline returned. A search response that is not JSON, or
  that holds \<open>error\<close>, on any of the three attempts that is reached through empty
  candidate lists, and such a response to the watch-page request of a lookup by scene
  id, is that returned value, printed with status 0.
\<close>

theorem failure_output:
  "(exit_code (main rt net call) = 0 \<or> exit_code (main rt net call) = 1)
   \<and> (exit_code (main rt net call) = 1 \<longrightarrow> (\<exists>m. stdout (main rt net call) = error_object m))
   \<and> (exit_code (main rt net call) = 0
        \<longrightarrow> (\<exists>result. fst (dispatch rt net call) = Ok result
               \<and> stdout (main rt net call) = jprint rt result))
   \<and> jprint rt v = (if encodable rt v then v else error_object ''PMVHaven fatal print error'')
   \<and> ((\<exists>m. fst (dispatch rt net call) = Fail m) \<or> (\<exists>e. fst (dispatch rt net call) = Raise e)
        \<longrightarrow> exit_code (main rt net call) = 1)
   \<and> (args call = [] \<or> stdin call = Blank \<or> (\<exists>x. stdin call = Malformed x)
        \<or> (\<exists>e. stdin call = Unreadable e)
        \<or> (\<exists>f rest. args call = f # rest \<and> f \<noteq> ''sceneByURL'' \<and> f \<noteq> ''sceneByFragment'')
        \<longrightarrow> exit_code (main rt net call) = 1)
   \<and> (\<forall>i e. i < length (snd (dispatch rt net call))
               \<and> net i (snd (dispatch rt net call) ! i) = TransportError e
        \<longrightarrow> exit_code (main rt net call) = 1
            \<and> (\<exists>context. stdout (main rt net call)
                   = jprint rt (error_object (context @ '': request failed: '' @ e))))
   \<and> (route_of rt call = Some (BySearch q tokens local) \<and> k < 3 \<and> attempts_empty net [] q k
        \<and> net k (search_request q) = NonJson status
        \<longrightarrow> main rt net call
            = \<lparr>stdout = jprint rt (JDict [(''error'', JStr ''search_videos: non-JSON response''),
                                          (''status'', JInt status)]),
               exit_code = 0\<rparr>)
   \<and> (route_of rt call = Some (BySearch q tokens local) \<and> k < 3 \<and> attempts_empty net [] q k
        \<and> net k (search_request q) = Body data \<and> error_in data = Inr True
        \<longrightarrow> main rt net call = \<lparr>stdout = jprint rt data, exit_code = 0\<rparr>)
   \<and> (route_of rt call = Some (ById scene_id)
        \<and> net 0 (Get (watch_url rt (JStr scene_id)) None) = NonJson status
        \<longrightarrow> main rt net call
            = \<lparr>stdout = jprint rt (JDict [(''error'', JStr ''get_watch_page: non-JSON response''),
                                          (''status'', JInt status)]),
               exit_code = 0\<rparr>)
   \<and> (route_of rt call = Some (ById scene_id)
        \<and> net 0 (Get (watch_url rt (JStr scene_id)) None) = Body data \<and> error_in data = Inr True
        \<longrightarrow> main rt net call = \<lparr>stdout = jprint rt data, exit_code = 0\<rparr>)"
proof (intro conjI)
  show "exit_code (main rt net call) = 0 \<or> exit_code (main rt net call) = 1"
    using main_exit_cases[of rt net call] by blast
  show "exit_code (main rt net call) = 1 \<longrightarrow> (\<exists>m. stdout (main rt net call) = error_object m)"
    using main_exit_cases[of rt net call] by auto
  show "exit_code (main rt net call) = 0
        \<longrightarrow> (\<exists>result. fst (dispatch rt net call) = Ok result
               \<and> stdout (main rt net call) = jprint rt result)"
    using main_exit_cases[of rt net call] by auto
  show "jprint rt v = (if encodable rt v then v else error_object ''PMVHaven fatal print error'')"
    by (simp add: jprint_def)
  show "(\<exists>m. fst (dispatch rt net call) = Fail m) \<or> (\<exists>e. fst (dispatch rt net call) = Raise e)
        \<longrightarrow> exit_code (main rt net call) = 1"
    by (auto simp: main_def)
  show "args call = [] \<or> stdin call = Blank \<or> (\<exists>x. stdin call = Malformed x)
        \<or> (\<exists>e. stdin call = Unreadable e)
        \<or> (\<exists>f rest. args call = f # rest \<and> f \<noteq> ''sceneByURL'' \<and> f \<noteq> ''sceneByFragment'')
        \<longrightarrow> exit_code (main rt net call) = 1"
    by (auto simp: main_def dispatch_def split: list.splits stdin_input.splits)
  show "\<forall>i e. i < length (snd (dispatch rt net call))
               \<and> net i (snd (dispatch rt net call) ! i) = TransportError e
        \<longrightarrow> exit_code (main rt net call) = 1
            \<and> (\<exists>context. stdout (main rt net call)
                   = jprint rt (error_object (context @ '': request failed: '' @ e)))"
    using main_transport by blast
  show "route_of rt call = Some (BySearch q tokens local) \<and> k < 3 \<and> attempts_empty net [] q k
        \<and> net k (search_request q) = NonJson status
        \<longrightarrow> main rt net call
            = \<lparr>stdout = jprint rt (JDict [(''error'', JStr ''search_videos: non-JSON response''),
                                          (''status'', JInt status)]),
               exit_code = 0\<rparr>"
  proof
    assume a: "route_of rt call = Some (BySearch q tokens local) \<and> k < 3 \<and> attempts_empty net [] q k
        \<and> net k (search_request q) = NonJson status"
    then have "net (length ([] :: trace) + k) (search_request q) = NonJson status" by simp
    then have "search_videos_with_retries rt net [] q tokens local
           = (Ok (JDict [(''error'', JStr ''search_videos: non-JSON response''), (''status'', JInt status)]),
              [] @ replicate (Suc k) (search_request q))"
      using a retries_non_json[of k net "[]" q status rt tokens local] by blast
    then have "fst (dispatch rt net call)
           = Ok (JDict [(''error'', JStr ''search_videos: non-JSON response''), (''status'', JInt status)])"
      using a dispatch_by_search[of rt call q tokens local net] by simp
    then show "main rt net call
            = \<lparr>stdout = jprint rt (JDict [(''error'', JStr ''search_videos: non-JSON response''),
                                          (''status'', JInt status)]),
               exit_code = 0\<rparr>"
      by (rule main_ok)
  qed
  show "route_of rt call = Some (BySearch q tokens local) \<and> k < 3 \<and> attempts_empty net [] q k
        \<and> net k (search_request q) = Body data \<and> error_in data = Inr True
        \<longrightarrow> main rt net call = \<lparr>stdout = jprint rt data, exit_code = 0\<rparr>"
  proof
    assume a: "route_of rt call = Some (BySearch q tokens local) \<and> k < 3 \<and> attempts_empty net [] q k
        \<and> net k (search_request q) = Body data \<and> error_in data = Inr True"
    then have "net (length ([] :: trace) + k) (search_request q) = Body data" by simp
    then have "search_videos_with_retries rt net [] q tokens local
           = (Ok data, [] @ replicate (Suc k) (search_request q))"
      using a retries_error_body[of k net "[]" q data rt tokens local] by blast
    then have "fst (dispatch rt net call) = Ok data"
      using a dispatch_by_search[of rt call q tokens local net] by simp
    then show "main rt net call = \<lparr>stdout = jprint rt data, exit_code = 0\<rparr>"
      by (rule main_ok)
  qed
  show "route_of rt call = Some (ById scene_id)
        \<and> net 0 (Get (watch_url rt (JStr scene_id)) None) = NonJson status
        \<longrightarrow> main rt net call
            = \<lparr>stdout = jprint rt (JDict [(''error'', JStr ''get_watch_page: non-JSON response''),
                                          (''status'', JInt status)]),
               exit_code = 0\<rparr>"
  proof
    assume a: "route_of rt call = Some (ById scene_id)
        \<and> net 0 (Get (watch_url rt (JStr scene_id)) None) = NonJson status"
    then have "net (length ([] :: trace)) (Get (watch_url rt (JStr scene_id)) None) = NonJson status"
      by simp
    then have "fst (get_video_by_id rt net [] (JStr scene_id))
           = Ok (JDict [(''error'', JStr ''get_watch_page: non-JSON response''), (''status'', JInt status)])"
      by (rule get_video_by_id_non_json)
    then have "fst (dispatch rt net call)
           = Ok (JDict [(''error'', JStr ''get_watch_page: non-JSON response''), (''status'', JInt status)])"
      using a dispatch_by_id[of rt call scene_id net] by simp
    then show "main rt net call
            = \<lparr>stdout = jprint rt (JDict [(''error'', JStr ''get_watch_page: non-JSON response''),
                                          (''status'', JInt status)]),
               exit_code = 0\<rparr>"
      by (rule main_ok)
  qed
  show "route_of rt call = Some (ById scene_id)
        \<and> net 0 (Get (watch_url rt (JStr scene_id)) None) = Body data \<and> error_in data = Inr True
        \<longrightarrow> main rt net call = \<lparr>stdout = jprint rt data, exit_code = 0\<rparr>"
  proof
    assume a: "route_of rt call = Some (ById scene_id)
        \<and> net 0 (Get (watch_url rt (JStr scene_id)) None) = Body data \<and> error_in data = Inr True"
    then have "net (length ([] :: trace)) (Get (watch_url rt (JStr scene_id)) None) = Body data"
      by simp
    then have "fst (get_video_by_id rt net [] (JStr scene_id)) = Ok data"
      using a get_video_by_id_error_body[of net "[]" rt "JStr scene_id" data] by blast
    then have "fst (dispatch rt net call) = Ok data"
      using a dispatch_by_id[of rt call scene_id net] by simp
    then show "main rt net call = \<lparr>stdout = jprint rt data, exit_code = 0\<rparr>"
      by (rule main_ok)
  qed
qed

theorem failure_output_witness:
  "snd (dispatch example_runtime down_net example_call) = [search_request ''some title'']
   \<and> down_net 0 (search_request ''some title'') = TransportError ''timed out''
   \<and> fst (dispatch example_runtime down_net example_call)
       = Fail ''search_videos: request failed: timed out''
   \<and> main example_runtime down_net example_call
       = \<lparr>stdout = error_object ''search_videos: request failed: timed out'', exit_code = 1\<rparr>
   \<and> args \<lparr>args = [], stdin = Blank\<rparr> = []
   \<and> exit_code (main example_runtime down_net \<lparr>args = [], stdin = Blank\<rparr>) = 1
   \<and> route_of example_runtime example_call = Some (BySearch ''some title'' [] [])
   \<and> attempts_empty late_broken_net [] ''some title'' 2
   \<and> late_broken_net 2 (search_request ''some title'') = NonJson 502
   \<and> main example_runtime late_broken_net example_call
       = \<lparr>stdout = JDict [(''error'', JStr ''search_videos: non-JSON response''), (''status'', JInt 502)],
          exit_code = 0\<rparr>
   \<and> attempts_empty error_net [] ''some title'' 0
   \<and> error_net 0 (search_request ''some title'') = Body (JDict [(''error'', JStr ''rate limited'')])
   \<and> error_in (JDict [(''error'', JStr ''rate limited'')]) = Inr True
   \<and> main example_runtime error_net example_call
       = \<lparr>stdout = JDict [(''error'', JStr ''rate limited'')], exit_code = 0\<rparr>
   \<and> fst (dispatch example_runtime error_net example_call) = Ok (JDict [(''error'', JStr ''rate limited'')])
   \<and> main unprintable_runtime error_net example_call
       = \<lparr>stdout = error_object ''PMVHaven fatal print error'', exit_code = 0\<rparr>
   \<and> route_of example_runtime example_id_call = Some (ById ''0123456789abcdef01234567'')
   \<and> broken_net 0 (Get (watch_url example_runtime (JStr ''0123456789abcdef01234567'')) None) = NonJson 502
   \<and> main example_runtime broken_net example_id_call
       = \<lparr>stdout = JDict [(''error'', JStr ''get_watch_page: non-JSON response''), (''status'', JInt 502)],
          exit_code = 0\<rparr>
   \<and> error_net 0 (Get (watch_url example_runtime (JStr ''0123456789abcdef01234567'')) None)
       = Body (JDict [(''error'', JStr ''rate limited'')])
   \<and> main example_runtime error_net example_id_call
       = \<lparr>stdout = JDict [(''error'', JStr ''rate limited'')], exit_code = 0\<rparr>"
proof -
  let ?id = "''0123456789abcdef01234567''"
  let ?limited = "JDict [(''error'', JStr ''rate limited'')]"
  let ?no_search = "JDict [(''error'', JStr ''search_videos: non-JSON response''), (''status'', JInt 502)]"
  let ?no_page = "JDict [(''error'', JStr ''get_watch_page: non-JSON response''), (''status'', JInt 502)]"
  note returned = failure_output[THEN conjunct2, THEN conjunct2, THEN conjunct1, rule_format]
  note printed = failure_output[THEN conjunct2, THEN conjunct2, THEN conjunct2, THEN conjunct1]
  note input = failure_output[THEN conjunct2, THEN conjunct2, THEN conjunct2, THEN conjunct2,
      THEN conjunct2, THEN conjunct1, rule_format]
  note transport = failure_output[THEN conjunct2, THEN conjunct2, THEN conjunct2, THEN conjunct2,
      THEN conjunct2, THEN conjunct2, THEN conjunct1, rule_format]
  note search_non_json = failure_output[THEN conjunct2, THEN conjunct2, THEN conjunct2,
      THEN conjunct2, THEN conjunct2, THEN conjunct2, THEN conjunct2, THEN conjunct1, rule_format]
  note search_error = failure_output[THEN conjunct2, THEN conjunct2, THEN conjunct2,
      THEN conjunct2, THEN conjunct2, THEN conjunct2, THEN conjunct2, THEN conjunct2,
      THEN conjunct1, rule_format]
  note id_non_json = failure_output[THEN conjunct2, THEN conjunct2, THEN conjunct2,
      THEN conjunct2, THEN conjunct2, THEN conjunct2, THEN conjunct2, THEN conjunct2,
      THEN conjunct2, THEN conjunct1, rule_format]
  note id_error = failure_output[THEN conjunct2, THEN conjunct2, THEN conjunct2,
      THEN conjunct2, THEN conjunct2, THEN conjunct2, THEN conjunct2, THEN conjunct2,
      THEN conjunct2, THEN conjunct2, rule_format]
  have printable: "jprint example_runtime x = x" for x
    unfolding printed[of example_runtime x] by (simp add: example_runtime_def)
  have unprintable: "jprint unprintable_runtime x = error_object ''PMVHaven fatal print error''" for x
    unfolding printed[of unprintable_runtime x] by (simp add: unprintable_runtime_def)
  have tr: "snd (dispatch example_runtime down_net example_call) = [search_request ''some title'']"
    by code_simp
  have dn: "down_net 0 (search_request ''some title'') = TransportError ''timed out''"
    by (simp add: down_net_def)
  have df: "fst (dispatch example_runtime down_net example_call)
       = Fail ''search_videos: request failed: timed out''"
    by code_simp
  have "exit_code (main example_runtime down_net example_call) = 1
        \<and> (\<exists>context. stdout (main example_runtime down_net example_call)
               = jprint example_runtime (error_object (context @ '': request failed: '' @ ''timed out'')))"
    by (rule transport[of 0]) (simp add: tr dn)
  then have "exit_code (main example_runtime down_net example_call) = 1" ..
  moreover have "stdout (main example_runtime down_net example_call)
       = error_object ''search_videos: request failed: timed out''"
    by code_simp
  ultimately have t1: "main example_runtime down_net example_call
       = \<lparr>stdout = error_object ''search_videos: request failed: timed out'', exit_code = 1\<rparr>"
    by simp
  have ar: "args \<lparr>args = [], stdin = Blank\<rparr> = []" by simp
  have t2: "exit_code (main example_runtime down_net \<lparr>args = [], stdin = Blank\<rparr>) = 1"
    by (rule input) (simp add: ar)
  have ro: "route_of example_runtime example_call = Some (BySearch ''some title'' [] [])"
    by code_simp
  have ru: "route_of unprintable_runtime example_call = Some (BySearch ''some title'' [] [])"
    by code_simp
  have le: "attempts_empty late_broken_net [] ''some title'' 2"
    by code_simp
  have ln: "late_broken_net 2 (search_request ''some title'') = NonJson 502"
    by (simp add: late_broken_net_def)
  have "main example_runtime late_broken_net example_call
       = \<lparr>stdout = jprint example_runtime ?no_search, exit_code = 0\<rparr>"
    by (rule search_non_json[where k = 2 and q = "''some title''"]) (simp add: ro le ln)
  then have t3: "main example_runtime late_broken_net example_call
       = \<lparr>stdout = ?no_search, exit_code = 0\<rparr>"
    unfolding printable .
  have ee: "attempts_empty error_net [] ''some title'' 0"
    by (simp add: attempts_empty_def)
  have en: "error_net 0 (search_request ''some title'') = Body ?limited"
    by (simp add: error_net_def)
  have ei: "error_in ?limited = Inr True"
    by (simp add: error_in_def)
  have "main example_runtime error_net example_call
       = \<lparr>stdout = jprint example_runtime ?limited, exit_code = 0\<rparr>"
    by (rule search_error[where k = 0 and q = "''some title''"]) (simp add: ro ee en ei)
  then have t4: "main example_runtime error_net example_call
       = \<lparr>stdout = ?limited, exit_code = 0\<rparr>"
    unfolding printable .
  then have "exit_code (main example_runtime error_net example_call) = 0" by simp
  then have "\<exists>result. fst (dispatch example_runtime error_net example_call) = Ok result
       \<and> stdout (main example_runtime error_net example_call) = jprint example_runtime result"
    by (rule returned)
  then have t5: "fst (dispatch example_runtime error_net example_call) = Ok ?limited"
    unfolding printable t4 by simp
  have "main unprintable_runtime error_net example_call
       = \<lparr>stdout = jprint unprintable_runtime ?limited, exit_code = 0\<rparr>"
    by (rule search_error[where k = 0 and q = "''some title''"]) (simp add: ru ee en ei)
  then have t6: "main unprintable_runtime error_net example_call
       = \<lparr>stdout = error_object ''PMVHaven fatal print error'', exit_code = 0\<rparr>"
    unfolding unprintable .
  have ri: "route_of example_runtime example_id_call = Some (ById ?id)"
    by code_simp
  have bn: "broken_net 0 (Get (watch_url example_runtime (JStr ?id)) None) = NonJson 502"
    by (simp add: broken_net_def)
  have "main example_runtime broken_net example_id_call
       = \<lparr>stdout = jprint example_runtime ?no_page, exit_code = 0\<rparr>"
    by (rule id_non_json[where scene_id = ?id]) (simp add: ri bn)
  then have t7: "main example_runtime broken_net example_id_call
       = \<lparr>stdout = ?no_page, exit_code = 0\<rparr>"
    unfolding printable .
  have eb: "error_net 0 (Get (watch_url example_runtime (JStr ?id)) None) = Body ?limited"
    by (simp add: error_net_def)
  have "main example_runtime error_net example_id_call
       = \<lparr>stdout = jprint example_runtime ?limited, exit_code = 0\<rparr>"
    by (rule id_error[where scene_id = ?id]) (simp add: ri eb ei)
  then have t8: "main example_runtime error_net example_id_call
       = \<lparr>stdout = ?limited, exit_code = 0\<rparr>"
    unfolding printable .
  show ?thesis
    by (intro conjI) (fact tr dn df t1 ar t2 ro le ln t3 ee en ei t4 t5 t6 ri bn t7 eb t8)+
qed

text \<open>
  A failure object on standard output does not imply exit status 1: when the search
  response is \<open>{"error": "rate limited"}\<close>, or is not JSON, the error object is printed as
  the result and the process exits with status 0.
\<close>

theorem error_result_exits_zero:
  "main example_runtime error_net example_call
     = \<lparr>stdout = error_object ''rate limited'', exit_code = 0\<rparr>
   \<and> main example_runtime broken_net example_call
     = \<lparr>stdout = JDict [(''error'', JStr ''search_videos: non-JSON response''), (''status'', JInt 502)],
        exit_code = 0\<rparr>"
  by code_simp

lemma space_not_digit: "is_space c \<Longrightarrow> \<not> is_digit c"
  by (auto simp: is_space_def is_digit_def)

lemma space_not_word: "is_space c \<Longrightarrow> \<not> is_word c"
  by (auto simp: is_space_def is_word_def is_ascii_alnum_def Let_def)

lemma digit_is_word: "is_digit c \<Longrightarrow> is_word c"
  by (auto simp: is_digit_def is_word_def is_ascii_alnum_def)

lemma blank_is_space: "is_space CHR '' ''"
  by (simp add: is_space_def)

lemma set_after_last: "set (after_last sep s) \<subseteq> set s - {sep}"
  by (auto simp: after_last_def dest: set_takeWhileD)

lemma after_last_id: "sep \<notin> set s \<Longrightarrow> after_last sep s = s"
proof -
  assume "sep \<notin> set s"
  then have "takeWhile (\<lambda>c. c \<noteq> sep) (rev s) = rev s"
    by (intro takeWhile_eq_all_conv[THEN iffD2]) auto
  then show ?thesis unfolding after_last_def by (simp only: rev_rev_ident)
qed

lemma set_strip_ext: "set (strip_ext x) \<subseteq> set x"
  by (auto simp: strip_ext_def Let_def dest: in_set_takeD)

lemma after_first_sep_suffix:
  "after_first_sep sep x = Some r \<Longrightarrow> \<exists>p. x = p @ sep @ r"
proof (induction x)
  case Nil
  then show ?case by (auto split: if_splits)
next
  case (Cons a x)
  show ?case
  proof (cases "take (length sep) (a # x) = sep")
    case True
    then have "r = drop (length sep) (a # x)" using Cons.prems by simp
    then have "a # x = [] @ sep @ r" using True by (metis append_Nil append_take_drop_id)
    then show ?thesis by blast
  next
    case False
    then have "after_first_sep sep x = Some r" using Cons.prems by simp
    then obtain p where "x = p @ sep @ r" using Cons.IH by blast
    then have "a # x = (a # p) @ sep @ r" by simp
    then show ?thesis by blast
  qed
qed

lemma set_replace_separators:
  "set (replace_separators x) \<subseteq> (set x - {CHR ''_'', CHR ''-''}) \<union> {CHR '' ''}"
  by (auto simp: replace_separators_def)

lemma replace_separators_id:
  "CHR ''_'' \<notin> set x \<Longrightarrow> CHR ''-'' \<notin> set x \<Longrightarrow> replace_separators x = x"
  unfolding replace_separators_def by (induction x) auto

lemma set_collapse_runs: "set (collapse_runs p r x) \<subseteq> set x \<union> {r}"
  by (induction p r x rule: collapse_runs.induct) (auto dest: set_dropWhileD)

lemma set_strip_by: "set (strip_by p x) \<subseteq> set x"
proof
  fix c assume "c \<in> set (strip_by p x)"
  then have "c \<in> set (dropWhile p (rev (dropWhile p x)))" by (simp add: strip_by_def)
  then have "c \<in> set (rev (dropWhile p x))" by (rule set_dropWhileD)
  then have "c \<in> set (dropWhile p x)" by simp
  then show "c \<in> set x" by (rule set_dropWhileD)
qed

lemma set_cleanup_whitespace: "set (cleanup_whitespace x) \<subseteq> set x \<union> {CHR '' ''}"
  using set_strip_by[of is_space "collapse_runs is_space CHR '' '' x"] set_collapse_runs[of is_space "CHR '' ''" x]
  by (auto simp: cleanup_whitespace_def strip_def)

lemma build_search_query_stages:
  "v \<noteq> [] \<Longrightarrow> build_search_query v =
     cleanup_whitespace (case search_timestamp (stage_name v) of
                           Some i \<Rightarrow> take i (stage_name v) | None \<Rightarrow> stage_name v)"
  unfolding build_search_query_def stage_name_def Let_def by simp

lemma set_stage_name:
  "set (stage_name v) \<subseteq> (set (strip_ext (basename v)) - {CHR ''_'', CHR ''-''}) \<union> {CHR '' ''}"
proof -
  let ?n = "strip_ext (basename v)"
  let ?m = "case after_first_sep ''_-_'' ?n of Some rest \<Rightarrow> rest | None \<Rightarrow> ?n"
  have "set ?m \<subseteq> set ?n"
  proof (cases "after_first_sep ''_-_'' ?n")
    case (Some r)
    then obtain p where "?n = p @ ''_-_'' @ r" using after_first_sep_suffix by blast
    then have "set r \<subseteq> set ?n" by (metis Un_upper2 set_append subset_trans)
    then show ?thesis using Some by simp
  qed simp
  then show ?thesis
    using set_replace_separators[of ?m] unfolding stage_name_def Let_def by blast
qed

lemma set_build_search_query:
  "set (build_search_query v) \<subseteq> (set (strip_ext (basename v)) - {CHR ''_'', CHR ''-''}) \<union> {CHR '' ''}"
proof (cases "v = []")
  case True
  then show ?thesis by (simp add: build_search_query_def)
next
  case False
  let ?s = "stage_name v"
  let ?t = "case search_timestamp ?s of Some i \<Rightarrow> take i ?s | None \<Rightarrow> ?s"
  have "set ?t \<subseteq> set ?s" by (auto split: option.splits dest: in_set_takeD)
  then have "set (cleanup_whitespace ?t) \<subseteq> set ?s \<union> {CHR '' ''}"
    using set_cleanup_whitespace[of ?t] by blast
  then show ?thesis
    using set_stage_name[of v] build_search_query_stages[OF False] by auto
qed

lemma build_search_query_chars:
  "CHR ''/'' \<notin> set (build_search_query v)"
  "CHR ''_'' \<notin> set (build_search_query v)"
  "CHR ''-'' \<notin> set (build_search_query v)"
proof -
  have "set (strip_ext (basename v)) \<subseteq> set v - {CHR ''/''}"
    using set_strip_ext[of "basename v"] set_after_last[of "CHR ''/''" v] by (auto simp: basename_def)
  then show "CHR ''/'' \<notin> set (build_search_query v)"
    "CHR ''_'' \<notin> set (build_search_query v)"
    "CHR ''-'' \<notin> set (build_search_query v)"
    using set_build_search_query[of v] by auto
qed

lemma build_search_query_no_dot:
  "CHR ''.'' \<notin> set (strip_ext (basename v)) \<Longrightarrow> CHR ''.'' \<notin> set (build_search_query v)"
  using set_build_search_query[of v] by auto

lemma collapsed_collapse: "collapsed (collapse x)"
proof (induction is_space "CHR '' ''" x rule: collapse_runs.induct)
  case 1
  then show ?case by simp
next
  case (2 c cs)
  show ?case
  proof (cases "is_space c")
    case True
    let ?z = "collapse (dropWhile is_space cs)"
    have z: "collapsed ?z" using 2(1)[OF True] .
    show ?thesis
    proof (cases "dropWhile is_space cs")
      case Nil
      then have "collapse (c # cs) = [CHR '' '']"
        using True by (simp del: dropWhile_eq_Nil_conv)
      then show ?thesis by simp
    next
      case (Cons b r)
      then have "\<not> is_space b" using hd_dropWhile[of is_space cs] by simp
      then have "?z = b # collapse r" using Cons by simp
      then show ?thesis using z True \<open>\<not> is_space b\<close> by simp
    qed
  next
    case False
    have z: "collapsed (collapse cs)" using 2(2)[OF False] .
    show ?thesis using False z by (cases "collapse cs") simp_all
  qed
qed

lemma collapse_collapsed: "collapsed y \<Longrightarrow> collapse y = y"
  by (induction y rule: collapsed.induct) auto

lemma collapsed_tl: "collapsed (a # y) \<Longrightarrow> collapsed y"
  by (cases y) simp_all

lemma collapsed_dropWhile: "collapsed y \<Longrightarrow> collapsed (dropWhile p y)"
  by (induction y) (auto dest: collapsed_tl)

lemma collapsed_take: "collapsed y \<Longrightarrow> collapsed (take k y)"
proof (induction y arbitrary: k rule: collapsed.induct)
  case 1
  then show ?case by simp
next
  case (2 a)
  then show ?case by (cases k) simp_all
next
  case (3 a b r)
  show ?case
  proof (cases k)
    case 0
    then show ?thesis by simp
  next
    case (Suc k')
    have "collapsed (take k' (b # r))" using 3 by simp
    then show ?thesis using Suc 3(2) by (cases k') simp_all
  qed
qed

lemma rev_dropWhile_rev: "rev (dropWhile p (rev w)) = take (length (dropWhile p (rev w))) w"
proof -
  have "rev w = takeWhile p (rev w) @ dropWhile p (rev w)" by simp
  then have "rev (rev w) = rev (takeWhile p (rev w) @ dropWhile p (rev w))" by (rule arg_cong)
  then have "w = rev (dropWhile p (rev w)) @ rev (takeWhile p (rev w))"
    by (simp only: rev_rev_ident rev_append)
  then have "take (length (rev (dropWhile p (rev w)))) w = rev (dropWhile p (rev w))"
    by (metis append_eq_conv_conj)
  then show ?thesis by simp
qed

lemma strip_by_take: "strip_by p x = take (length (dropWhile p (rev (dropWhile p x)))) (dropWhile p x)"
  unfolding strip_by_def by (rule rev_dropWhile_rev)

lemma strip_by_head: "strip_by p x \<noteq> [] \<Longrightarrow> \<not> p (hd (strip_by p x))"
proof -
  assume a: "strip_by p x \<noteq> []"
  let ?w = "dropWhile p x"
  have "?w \<noteq> []" using a strip_by_take[of p x] by auto
  then have "\<not> p (hd ?w)" by (rule hd_dropWhile)
  moreover have "hd (strip_by p x) = hd ?w"
    using a strip_by_take[of p x] by (metis hd_take take_eq_Nil2 gr0I)
  ultimately show ?thesis by simp
qed

lemma strip_by_last: "strip_by p x \<noteq> [] \<Longrightarrow> \<not> p (last (strip_by p x))"
proof -
  assume a: "strip_by p x \<noteq> []"
  let ?d = "dropWhile p (rev (dropWhile p x))"
  have "?d \<noteq> []" using a by (simp add: strip_by_def)
  then have "\<not> p (hd ?d)" by (rule hd_dropWhile)
  moreover have "last (strip_by p x) = hd ?d"
    using \<open>?d \<noteq> []\<close> by (simp add: strip_by_def last_rev)
  ultimately show ?thesis by simp
qed

lemma strip_by_fixed:
  assumes "y = [] \<or> (\<not> p (hd y) \<and> \<not> p (last y))"
  shows "strip_by p y = y"
proof (cases "y = []")
  case True
  then show ?thesis by (simp add: strip_by_def)
next
  case False
  then have h: "\<not> p (hd y)" "\<not> p (last y)" using assms by auto
  have 1: "dropWhile p y = y" using h(1) by (simp add: dropWhile_eq_self_iff)
  have 2: "dropWhile p (rev y) = rev y" using h(2) by (simp add: dropWhile_eq_self_iff hd_rev)
  show ?thesis by (simp add: strip_by_def 1 2)
qed

lemma strip_by_idem: "strip_by p (strip_by p x) = strip_by p x"
  using strip_by_head[of p x] strip_by_last[of p x] by (intro strip_by_fixed) blast

lemma cleanup_whitespace_idem: "cleanup_whitespace (cleanup_whitespace x) = cleanup_whitespace x"
proof -
  have "collapsed (strip (collapse x))"
    unfolding strip_def using strip_by_take[of is_space "collapse x"] collapsed_collapse[of x]
    by (metis collapsed_dropWhile collapsed_take)
  then have "collapse (strip (collapse x)) = strip (collapse x)" by (rule collapse_collapsed)
  then show ?thesis by (simp add: cleanup_whitespace_def strip_def strip_by_idem)
qed

lemma spaced_run_is_boundary_run:
  "search_spaced_run x = Some i \<Longrightarrow> search_boundary_run p x \<noteq> None"
proof (induction x arbitrary: i p)
  case Nil
  then show ?case by simp
next
  case (Cons a x)
  show ?case
  proof (cases "is_space a \<and> long_run_then_space x")
    case True
    then have len: "8 \<le> length (takeWhile is_digit x)" by (simp add: long_run_then_space_def)
    then obtain b y where x: "x = b # y" by (cases x) auto
    have "\<not> is_digit a" using True space_not_digit by blast
    moreover have "\<not> is_word a" using True space_not_word by blast
    ultimately have "search_boundary_run p (a # x) = map_option Suc (search_boundary_run False (b # y))"
      using x by simp
    moreover have "search_boundary_run False (b # y) = Some 0" using len x by simp
    ultimately show ?thesis by simp
  next
    case False
    then obtain j where "search_spaced_run x = Some j" using Cons.prems by (auto split: if_splits)
    then have "search_boundary_run (is_word a) x \<noteq> None" using Cons.IH by blast
    then show ?thesis by auto
  qed
qed

lemma after_first_sep_none:
  assumes "CHR ''_'' \<notin> set x"
  shows "after_first_sep ''_-_'' x = None"
proof (cases "after_first_sep ''_-_'' x")
  case (Some r)
  then obtain p where "x = p @ ''_-_'' @ r" using after_first_sep_suffix by blast
  then have "CHR ''_'' \<in> set x" by simp
  then show ?thesis using assms by simp
qed simp

lemma build_search_query_cleaned:
  "\<exists>x. build_search_query v = cleanup_whitespace x"
proof (cases "v = []")
  case True
  have "cleanup_whitespace [] = []" by (simp add: cleanup_whitespace_def strip_def strip_by_def)
  then show ?thesis using True by (metis build_search_query_def)
next
  case False
  then show ?thesis using build_search_query_stages by blast
qed

lemma build_search_query_fixed:
  assumes "\<not> has_extension q" "\<not> has_timestamp q"
    and "CHR ''/'' \<notin> set q" "CHR ''_'' \<notin> set q" "CHR ''-'' \<notin> set q"
    and "cleanup_whitespace q = q"
  shows "build_search_query q = q"
proof (cases "q = []")
  case True
  then show ?thesis by (simp add: build_search_query_def)
next
  case False
  have b: "basename q = q" using assms(3) by (simp add: basename_def after_last_id)
  have e: "strip_ext q = q" using assms(1) by (auto simp: strip_ext_def has_extension_def Let_def)
  have s: "after_first_sep ''_-_'' q = None" using assms(4) by (rule after_first_sep_none)
  have r: "replace_separators q = q" using assms(4,5) by (rule replace_separators_id)
  have st: "stage_name q = q" by (simp add: stage_name_def b e s r)
  have bd: "search_boundary_run False q = None" using assms(2) by (simp add: has_timestamp_def)
  have "search_spaced_run q = None"
  proof (cases "search_spaced_run q")
    case (Some i)
    then show ?thesis using spaced_run_is_boundary_run[of q i False] bd by simp
  qed simp
  then have "search_timestamp q = None" using bd by (simp add: search_timestamp_def)
  then show ?thesis using build_search_query_stages[OF False] st assms(6) by simp
qed

text \<open>
  C7 (amended). Re-running the Query Builder on its own output changes nothing when that
  output has no file extension left (a dot followed by characters without a dot) and
  holds no run of 8 or more digits at a word boundary.
\<close>

theorem build_search_query_idempotent:
  assumes "\<not> has_extension (build_search_query s)" "\<not> has_timestamp (build_search_query s)"
  shows "build_search_query (build_search_query s) = build_search_query s"
proof -
  obtain x where "build_search_query s = cleanup_whitespace x"
    using build_search_query_cleaned by blast
  then have "cleanup_whitespace (build_search_query s) = build_search_query s"
    by (simp add: cleanup_whitespace_idem)
  then show ?thesis
    using assms build_search_query_chars[of s] by (intro build_search_query_fixed)
qed

theorem build_search_query_idempotent_witness:
  "build_search_query ''tomtom10_-_Thicc_5_1766671291932_folhscuz.mp4'' = ''Thicc 5''
   \<and> \<not> has_extension ''Thicc 5'' \<and> \<not> has_timestamp ''Thicc 5''
   \<and> build_search_query ''Thicc 5'' = ''Thicc 5''"
proof -
  have q: "build_search_query ''tomtom10_-_Thicc_5_1766671291932_folhscuz.mp4'' = ''Thicc 5''"
    by code_simp
  have h: "\<not> has_extension ''Thicc 5''" "\<not> has_timestamp ''Thicc 5''"
    by code_simp+
  from build_search_query_idempotent[of "''tomtom10_-_Thicc_5_1766671291932_folhscuz.mp4''"] q h
  show ?thesis by simp
qed

text \<open>
  Without the first condition the Query Builder is not idempotent, and no digit is
  involved: \<open>clip.part.avi\<close> gives \<open>clip.part\<close>, which gives \<open>clip\<close>.
\<close>

theorem build_search_query_not_idempotent:
  "build_search_query (build_search_query ''clip.part.avi'') \<noteq> build_search_query ''clip.part.avi''
   \<and> \<not> list_ex is_digit ''clip.part.avi''"
  by code_simp

lemma tail_runI:
  "x = A @ [w] @ ds @ T \<Longrightarrow> is_space w \<Longrightarrow> 8 \<le> length ds \<Longrightarrow> list_all is_digit ds
     \<Longrightarrow> list_all is_space T \<Longrightarrow> tail_run x"
  unfolding tail_run_def by blast

lemma tail_run_prepend: "tail_run x \<Longrightarrow> tail_run (p @ x)"
proof -
  assume "tail_run x"
  then obtain A w ds T where "x = A @ [w] @ ds @ T" "is_space w" "8 \<le> length ds"
    "list_all is_digit ds" "list_all is_space T"
    unfolding tail_run_def by blast
  then show ?thesis by (intro tail_runI[of _ "p @ A" w ds T]) simp_all
qed

lemma tail_run_append:
  "tail_run x \<Longrightarrow> list_all is_space R \<Longrightarrow> tail_run (x @ R)"
proof -
  assume "tail_run x" and r: "list_all is_space R"
  then obtain A w ds T where "x = A @ [w] @ ds @ T" "is_space w" "8 \<le> length ds"
    "list_all is_digit ds" "list_all is_space T"
    unfolding tail_run_def by blast
  then show ?thesis using r by (intro tail_runI[of _ A w ds "T @ R"]) simp_all
qed

lemma ends_with_spaced_tail_run:
  assumes "ends_with_spaced_digit_run q"
  shows "tail_run q"
proof -
  let ?D = "takeWhile is_digit (rev q)"
  from assms obtain c R where d: "dropWhile is_digit (rev q) = c # R" "is_space c" "8 \<le> length ?D"
    by (auto simp: ends_with_spaced_digit_run_def split: list.splits)
  have "rev q = ?D @ c # R" using d(1) by (metis takeWhile_dropWhile_id)
  then have "rev (rev q) = rev (?D @ c # R)" by (rule arg_cong)
  then have "q = rev R @ [c] @ rev ?D @ []" by (simp only: rev_rev_ident rev_append rev.simps append_Nil2 append_assoc append_Nil)
  moreover have "list_all is_digit (rev ?D)"
    by (auto simp: list_all_iff dest: set_takeWhileD)
  ultimately show ?thesis using d(2,3) by (intro tail_runI[of q "rev R" c "rev ?D" "[]"]) simp_all
qed

lemma strip_by_split:
  "\<exists>L R. x = L @ strip_by p x @ R \<and> list_all p L \<and> list_all p R"
proof -
  let ?w = "dropWhile p x"
  have 1: "x = takeWhile p x @ ?w" by simp
  have "rev ?w = takeWhile p (rev ?w) @ dropWhile p (rev ?w)" by simp
  then have "rev (rev ?w) = rev (takeWhile p (rev ?w) @ dropWhile p (rev ?w))" by (rule arg_cong)
  then have 2: "?w = strip_by p x @ rev (takeWhile p (rev ?w))"
    by (simp only: rev_rev_ident rev_append strip_by_def)
  have "x = takeWhile p x @ strip_by p x @ rev (takeWhile p (rev ?w))"
    using 1 2 by metis
  moreover have "list_all p (takeWhile p x)" by (auto simp: list_all_iff dest: set_takeWhileD)
  moreover have "list_all p (rev (takeWhile p (rev ?w)))" by (auto simp: list_all_iff dest: set_takeWhileD)
  ultimately show ?thesis by blast
qed

lemma tail_run_strip: "tail_run (strip y) \<Longrightarrow> tail_run y"
proof -
  assume t: "tail_run (strip y)"
  obtain L R where "y = L @ strip y @ R" "list_all is_space R"
    using strip_by_split[of y is_space] unfolding strip_def by blast
  then show ?thesis using tail_run_prepend[OF tail_run_append[OF t], of R L] by simp
qed

lemma all_space_collapse: "list_all is_space (collapse u) \<Longrightarrow> list_all is_space u"
proof (induction is_space "CHR '' ''" u rule: collapse_runs.induct)
  case 1
  then show ?case by simp
next
  case (2 c cs)
  show ?case
  proof (cases "is_space c")
    case True
    then have "list_all is_space (dropWhile is_space cs)" using 2 by simp
    moreover have "list_all is_space (takeWhile is_space cs)"
      by (auto simp: list_all_iff dest: set_takeWhileD)
    ultimately have "list_all is_space (takeWhile is_space cs @ dropWhile is_space cs)"
      by (simp only: list_all_append)
    then show ?thesis using True by simp
  next
    case False
    then show ?thesis using 2(3) by simp
  qed
qed

lemma collapse_digits_preimage:
  "collapse u = ds @ T \<Longrightarrow> list_all is_digit ds \<Longrightarrow> list_all is_space T
     \<Longrightarrow> \<exists>T'. u = ds @ T' \<and> list_all is_space T'"
proof (induction ds arbitrary: u)
  case Nil
  then show ?case using all_space_collapse[of u] by simp
next
  case (Cons d ds)
  have dd: "is_digit d" using Cons.prems(2) by simp
  then have nb: "d \<noteq> CHR '' ''" using space_not_digit blank_is_space by blast
  have ns: "\<not> is_space d" using dd space_not_digit by blast
  show ?case
  proof (cases u)
    case Nil
    then show ?thesis using Cons.prems(1) by simp
  next
    case (Cons a u')
    show ?thesis
    proof (cases "is_space a")
      case True
      then show ?thesis using Cons.prems(1) nb \<open>u = a # u'\<close> by simp
    next
      case False
      then have "a = d" "collapse u' = ds @ T" using Cons.prems(1) \<open>u = a # u'\<close> by simp_all
      moreover obtain T' where "u' = ds @ T'" "list_all is_space T'"
        using Cons.IH[OF \<open>collapse u' = ds @ T\<close>] Cons.prems(2,3) by auto
      ultimately show ?thesis using \<open>u = a # u'\<close> by simp
    qed
  qed
qed

lemma tail_run_collapse: "tail_run (collapse y) \<Longrightarrow> tail_run y"
proof (induction is_space "CHR '' ''" y rule: collapse_runs.induct)
  case 1
  then show ?case by (simp add: tail_run_def)
next
  case (2 c cs)
  from 2(3) obtain A w ds T where t: "collapse (c # cs) = A @ [w] @ ds @ T" "is_space w" "8 \<le> length ds"
    "list_all is_digit ds" "list_all is_space T"
    unfolding tail_run_def by blast
  show ?case
  proof (cases "is_space c")
    case True
    let ?rest = "dropWhile is_space cs"
    have c: "collapse (c # cs) = CHR '' '' # collapse ?rest" using True by simp
    have split: "c # cs = (c # takeWhile is_space cs) @ ?rest" by simp
    show ?thesis
    proof (cases A)
      case Nil
      then have "collapse ?rest = ds @ T" using t(1) c by simp
      then obtain T' where T': "?rest = ds @ T'" "list_all is_space T'"
        using collapse_digits_preimage t(4,5) by blast
      let ?run = "c # takeWhile is_space cs"
      have "?run = butlast ?run @ [last ?run]" by simp
      moreover have "is_space (last ?run)"
        using True by (metis (no_types, lifting) last_in_set list.discI set_ConsD set_takeWhileD)
      ultimately have "c # cs = butlast ?run @ [last ?run] @ ds @ T'" "is_space (last ?run)"
        using split T'(1) by (metis append.assoc, simp)
      then show ?thesis using t(3,4) T'(2) by (intro tail_runI[of _ "butlast ?run" "last ?run" ds T'])
    next
      case (Cons a A')
      then have "collapse ?rest = A' @ [w] @ ds @ T" using t(1) c by simp
      then have "tail_run (collapse ?rest)" using t(2-5) by (intro tail_runI)
      then have "tail_run ?rest" using 2(1)[OF True] by simp
      then have "tail_run ((c # takeWhile is_space cs) @ ?rest)" by (rule tail_run_prepend)
      then show ?thesis by simp
    qed
  next
    case False
    have c: "collapse (c # cs) = c # collapse cs" using False by simp
    show ?thesis
    proof (cases A)
      case Nil
      then have "w = c" using t(1) c by simp
      then show ?thesis using t(2) False by simp
    next
      case (Cons a A')
      then have "collapse cs = A' @ [w] @ ds @ T" using t(1) c by simp
      then have "tail_run (collapse cs)" using t(2-5) by (intro tail_runI)
      then have "tail_run cs" using 2(2)[OF False] by simp
      then have "tail_run ([c] @ cs)" by (rule tail_run_prepend)
      then show ?thesis by simp
    qed
  qed
qed

lemma takeWhile_digits_append:
  "list_all is_digit ds \<Longrightarrow> length ds \<le> length (takeWhile is_digit (ds @ R))"
  by (simp add: list_all_iff takeWhile_append2)

lemma spaced_run_exists:
  assumes "is_space w" "8 \<le> length ds" "list_all is_digit ds" "is_space w2"
  shows "\<exists>j\<le>length A. search_spaced_run (A @ [w] @ ds @ [w2] @ R) = Some j"
proof (induction A)
  case Nil
  have "takeWhile is_digit (ds @ w2 # R) = ds"
    using assms(3,4) space_not_digit by (simp add: list_all_iff takeWhile_append2)
  moreover have "dropWhile is_digit (ds @ w2 # R) = w2 # R"
    using assms(3,4) space_not_digit by (simp add: list_all_iff dropWhile_append2)
  ultimately have "long_run_then_space (ds @ w2 # R)"
    using assms(2,4) by (simp add: long_run_then_space_def)
  then show ?case using assms(1) by simp
next
  case (Cons a A)
  then obtain j where j: "j \<le> length A" "search_spaced_run (A @ [w] @ ds @ [w2] @ R) = Some j"
    by blast
  show ?case
  proof (cases "is_space a \<and> long_run_then_space (A @ [w] @ ds @ [w2] @ R)")
    case True
    then have "search_spaced_run ((a # A) @ [w] @ ds @ [w2] @ R) = Some 0" by simp
    then show ?thesis by blast
  next
    case False
    then have "search_spaced_run ((a # A) @ [w] @ ds @ [w2] @ R) = Some (Suc j)" using j(2) by auto
    then show ?thesis using j(1) by auto
  qed
qed

lemma boundary_run_exists:
  assumes "is_space w" "8 \<le> length ds" "list_all is_digit ds"
  shows "\<exists>j\<le>Suc (length A). search_boundary_run p (A @ [w] @ ds @ R) = Some j"
proof (induction A arbitrary: p)
  case Nil
  obtain d ds' where ds: "ds = d # ds'" using assms(2) by (cases ds) auto
  have len: "8 \<le> length (takeWhile is_digit (ds @ R))"
    using takeWhile_digits_append[OF assms(3), of R] assms(2) by linarith
  have "\<not> is_digit w" using assms(1) space_not_digit by blast
  moreover have "\<not> is_word w" using assms(1) space_not_word by blast
  moreover have "search_boundary_run False (ds @ R) = Some 0"
    using len ds by simp
  ultimately have "search_boundary_run p ([] @ [w] @ ds @ R) = Some (Suc 0)" by simp
  then show ?case by auto
next
  case (Cons a A)
  obtain j where j: "j \<le> Suc (length A)" "search_boundary_run (is_word a) (A @ [w] @ ds @ R) = Some j"
    using Cons[of "is_word a"] by blast
  show ?case
  proof (cases "\<not> p \<and> 8 \<le> length (takeWhile is_digit ((a # A) @ [w] @ ds @ R))")
    case True
    then have "search_boundary_run p ((a # A) @ [w] @ ds @ R) = Some 0" by simp
    then show ?thesis by blast
  next
    case False
    then have "search_boundary_run p ((a # A) @ [w] @ ds @ R) = Some (Suc j)" using j(2) by auto
    then show ?thesis using j(1) by auto
  qed
qed

lemma spaced_run_position:
  "search_spaced_run x = Some i \<Longrightarrow> i < length x \<and> is_space (x ! i)"
proof (induction x arbitrary: i)
  case Nil
  then show ?case by simp
next
  case (Cons a x)
  show ?case
  proof (cases "is_space a \<and> long_run_then_space x")
    case True
    then show ?thesis using Cons.prems by simp
  next
    case False
    then obtain j where "search_spaced_run x = Some j" "i = Suc j"
      using Cons.prems by (auto split: if_splits)
    then show ?thesis using Cons.IH by simp
  qed
qed

lemma truncated_no_tail_run:
  "\<not> tail_run (case search_timestamp x of Some i \<Rightarrow> take i x | None \<Rightarrow> x)"
proof
  let ?t = "case search_timestamp x of Some i \<Rightarrow> take i x | None \<Rightarrow> x"
  assume "tail_run ?t"
  then obtain A w ds T where t: "?t = A @ [w] @ ds @ T" "is_space w" "8 \<le> length ds"
    "list_all is_digit ds" "list_all is_space T"
    unfolding tail_run_def by blast
  have long: "length A + 9 \<le> length ?t" using t(1,3) by simp
  show False
  proof (cases "search_spaced_run x")
    case (Some i)
    then have ti: "?t = take i x" by (simp add: search_timestamp_def)
    have pos: "i < length x" "is_space (x ! i)" using spaced_run_position[OF Some] by auto
    have tx: "take i x = A @ [w] @ ds @ T" using ti t(1) by metis
    from id_take_nth_drop[OF pos(1)]
    have "x = (A @ [w] @ ds @ T) @ x ! i # drop (Suc i) x" unfolding tx .
    then have x: "x = A @ [w] @ ds @ T @ x ! i # drop (Suc i) x" by (simp only: append_assoc)
    obtain w2 R where wr: "T @ x ! i # drop (Suc i) x = [w2] @ R" "is_space w2"
    proof (cases T)
      case Nil
      then show ?thesis using that[of "x ! i" "drop (Suc i) x"] pos(2) by simp
    next
      case (Cons b T')
      then show ?thesis using that[of b "T' @ x ! i # drop (Suc i) x"] t(5) by simp
    qed
    have "x = A @ [w] @ ds @ [w2] @ R" using x wr(1) by simp
    then obtain j where "j \<le> length A" "search_spaced_run x = Some j"
      using spaced_run_exists[OF t(2,3,4) wr(2), of A R] by auto
    then have "i \<le> length A" using Some by simp
    moreover have "length ?t = i" using ti pos(1) by simp
    ultimately show False using long by simp
  next
    case None
    show False
    proof (cases "search_boundary_run False x")
      case (Some i)
      then have ti: "?t = take i x" using None by (simp add: search_timestamp_def)
      have tx: "take i x = A @ [w] @ ds @ T" using ti t(1) by metis
      from append_take_drop_id[of i x]
      have "(A @ [w] @ ds @ T) @ drop i x = x" unfolding tx .
      then have "x = A @ [w] @ ds @ (T @ drop i x)" by (simp only: append_assoc)
      then obtain j where "j \<le> Suc (length A)" "search_boundary_run False x = Some j"
        using boundary_run_exists[OF t(2,3,4), of A False "T @ drop i x"] by auto
      then have "i \<le> Suc (length A)" using Some by simp
      moreover have "length ?t \<le> i" using ti by simp
      ultimately show False using long by simp
    next
      case None2: None
      then have "?t = x" using None by (simp add: search_timestamp_def)
      then have "x = A @ [w] @ ds @ T" using t(1) by simp
      then obtain j where "search_boundary_run False x = Some j"
        using boundary_run_exists[OF t(2,3,4), of A False T] by auto
      then show False using None2 by simp
    qed
  qed
qed

lemma build_search_query_no_spaced_run:
  "\<not> ends_with_spaced_digit_run (build_search_query v)"
proof (cases "v = []")
  case True
  then show ?thesis by (simp add: build_search_query_def ends_with_spaced_digit_run_def)
next
  case False
  let ?t = "case search_timestamp (stage_name v) of Some i \<Rightarrow> take i (stage_name v) | None \<Rightarrow> stage_name v"
  show ?thesis
  proof
    assume "ends_with_spaced_digit_run (build_search_query v)"
    then have "tail_run (strip (collapse ?t))"
      using ends_with_spaced_tail_run build_search_query_stages[OF False]
      by (simp add: cleanup_whitespace_def)
    then have "tail_run ?t" using tail_run_strip tail_run_collapse by blast
    then show False using truncated_no_tail_run by blast
  qed
qed

lemma no_dot_no_extension: "CHR ''.'' \<notin> set q \<Longrightarrow> \<not> has_extension q"
  by (simp add: has_extension_def)

text \<open>
  C6 (amended). The query never contains a slash, an underscore or a hyphen; it has no
  file extension when the base name has no dot besides the one of its last extension;
  and it never ends with a whitespace character followed by 8 or more digits.
\<close>

theorem build_search_query_invariant:
  "CHR ''/'' \<notin> set (build_search_query s)
   \<and> CHR ''_'' \<notin> set (build_search_query s)
   \<and> CHR ''-'' \<notin> set (build_search_query s)
   \<and> (CHR ''.'' \<notin> set (strip_ext (basename s)) \<longrightarrow> \<not> has_extension (build_search_query s))
   \<and> \<not> ends_with_spaced_digit_run (build_search_query s)"
  using build_search_query_chars[of s] build_search_query_no_dot[of s]
    no_dot_no_extension[of "build_search_query s"] build_search_query_no_spaced_run[of s]
  by blast

theorem build_search_query_invariant_witness:
  "CHR ''.'' \<notin> set (strip_ext (basename ''tomtom10_-_Thicc_5_1766671291932_folhscuz.mp4''))
   \<and> build_search_query ''tomtom10_-_Thicc_5_1766671291932_folhscuz.mp4'' = ''Thicc 5''
   \<and> \<not> has_extension ''Thicc 5''
   \<and> \<not> ends_with_spaced_digit_run ''Thicc 5''"
proof -
  have d: "CHR ''.'' \<notin> set (strip_ext (basename ''tomtom10_-_Thicc_5_1766671291932_folhscuz.mp4''))"
    by code_simp
  have q: "build_search_query ''tomtom10_-_Thicc_5_1766671291932_folhscuz.mp4'' = ''Thicc 5''"
    by code_simp
  from build_search_query_invariant[of "''tomtom10_-_Thicc_5_1766671291932_folhscuz.mp4''"] d q
  show ?thesis by simp
qed

text \<open>
  Only the last extension is removed, and a long digit run is cut only where the patterns
  of the Query Builder find it: \<open>clip.mp4.mp4\<close> gives \<open>clip.mp4\<close>, \<open>abc12345678.mp4\<close> gives
  \<open>abc12345678\<close>, and \<open>12345678_12345678_z.mp4\<close> gives \<open>12345678\<close>.
\<close>

theorem build_search_query_keeps_extension_and_digits:
  "build_search_query ''clip.mp4.mp4'' = ''clip.mp4''
   \<and> has_extension (build_search_query ''clip.mp4.mp4'')
   \<and> build_search_query ''abc12345678.mp4'' = ''abc12345678''
   \<and> ends_with_long_digit_run (build_search_query ''abc12345678.mp4'')
   \<and> build_search_query ''12345678_12345678_z.mp4'' = ''12345678''
   \<and> ends_with_long_digit_run (build_search_query ''12345678_12345678_z.mp4'')"
  by code_simp

end
